theory Spec2Isabelle
  imports Complex_Main "HOL-Library.AList"
begin

section \<open>The resumable batch scraper: data model\<close>

text \<open>
  A shallow embedding of \<^verbatim>\<open>scraper/src/batch_scraper.py\<close> (class \<^verbatim>\<open>BatchScraper\<close>) and
  of the parts of \<^verbatim>\<open>scraper/src/scrapers/mimedb.py\<close> (class \<^verbatim>\<open>MimeDBScraper\<close>) it drives.
  Python's unbounded integers are \<open>int\<close>, \<open>//\<close> is \<open>div\<close> (both floor), dictionaries
  with string keys are association lists, and every \<^verbatim>\<open>raise\<close> is a value of type \<open>exn\<close>.
  A leading underscore of a Python name is dropped (\<^verbatim>\<open>_load_progress\<close> is \<open>load_progress\<close>).
\<close>

datatype exn = KeyboardInterrupt | Exception string

text \<open>Attribute values of a scraped record: text, booleans, a float, or \<^verbatim>\<open>None\<close>.\<close>

datatype val = Str string | Bool bool | Num real | Null

type_synonym attrs = "(string \<times> val) list"

text \<open>A stored row of the \<^verbatim>\<open>bacteria\<close> table: its primary key and its columns.\<close>

record row =
  pk :: nat
  cols :: attrs

text \<open>The \<^verbatim>\<open>ScrapeLog\<close> row of one run (the run summary).\<close>

record scrape_log =
  end_time :: "nat option"
  total_urls :: "nat option"
  successful_scrapes :: "nat option"
  failed_scrapes :: "nat option"
  error_message :: "string option"

text \<open>
  The progress snapshot. The file holds two JSON arrays; the code reads them with
  \<^verbatim>\<open>set(...)\<close> and writes them back with \<^verbatim>\<open>list(...)\<close> of a set, whose order is
  unspecified, so the record carries the sets the arrays denote.
\<close>

record progress =
  last_processed_idx :: int
  successful_ids :: "string set"
  failed_ids :: "string set"

text \<open>
  A value as \<^verbatim>\<open>json.load\<close> returns it: \<^verbatim>\<open>None\<close>, a boolean, an integer, a string, a list
  or a dictionary (its pairs in the order of the text). \<open>JSet S\<close> is the list that
  \<^verbatim>\<open>list(...)\<close> makes of the set \<open>S\<close> of strings: its elements once each, in an order that
  Python does not specify. Numbers with a fraction or an exponent, which load as floats,
  are not modelled.
\<close>

datatype json =
    JNull
  | JBool bool
  | JInt int
  | JStr string
  | JArr "json list"
  | JSet "string set"
  | JObj "(string \<times> json) list"

text \<open>
  The progress file on disk: absent, present but not loadable (\<^verbatim>\<open>open\<close> or
  \<^verbatim>\<open>json.load\<close> raises), or holding the text of a value, whatever its shape.
\<close>

datatype pfile = Missing | Unreadable | Loadable json

datatype http_result = Response int string | RequestError string | Interrupted

datatype write_outcome = Written | OpenFailed | DumpFailed

text \<open>
  Every call that leaves the process is recorded, in order, in a trace. The length of the
  trace is the logical clock: the outside world answers a call by a function of the time
  of the call, which lets it answer the same question differently at different times.
\<close>

datatype event =
    Sleep real
  | HttpGet string
  | ScrapeBacteria string
  | SaveBatchToDb "attrs list"
  | SaveProgress progress
  | Commit
  | LogError string

text \<open>
  The SQLAlchemy session (\<^verbatim>\<open>autocommit=False, autoflush=False\<close>): the committed table,
  the loaded rows with their uncommitted attribute changes, the objects added but not yet
  inserted, the next primary key, and the \<^verbatim>\<open>ScrapeLog\<close> object with its committed copy.
\<close>

record session =
  table :: "row list"
  working :: "row list"
  pending :: "attrs list"
  next_pk :: nat
  log :: scrape_log
  log_stored :: scrape_log

record world =
  trace :: "event list"
  sess :: session
  progress_file :: pfile

text \<open>
  The outside world and the declarations missing from the sources: the remote site, the
  page parser (\<^verbatim>\<open>parse_bacteria_page\<close>, pure), the attributes of the \<^verbatim>\<open>Bacteria\<close> model
  class (\<^verbatim>\<open>src.models\<close> is not among the sources), and the faults of the database and of
  the file system. \<open>db_fault t = Some j\<close> makes the batch save started at time \<open>t\<close> raise at
  its \<open>j\<close>-th item, or at its commit when \<open>j\<close> is not below the size of the batch.
  The operator's interrupt is delivered where the process waits, during a request; the
  faults of the database and of the file system are Python \<^verbatim>\<open>Exception\<close>s.
\<close>

record env =
  http_get :: "nat \<Rightarrow> string \<Rightarrow> http_result"
  parse_bacteria_page :: "string \<Rightarrow> attrs"
  has_attr :: "string \<Rightarrow> bool"
  db_fault :: "nat \<Rightarrow> nat option"
  commit_fault :: "nat \<Rightarrow> string option"
  write_fault :: "nat \<Rightarrow> write_outcome"

record config =
  batch_size :: int
  delay :: real

section \<open>Python slicing and the batch arithmetic\<close>

text \<open>Index adjustment of \<^verbatim>\<open>xs[a:b]\<close>: a negative index counts from the end, then clamps.\<close>

definition py_clamp :: "int \<Rightarrow> int \<Rightarrow> nat" where
  "py_clamp n i = nat (if i < 0 then max (n + i) 0 else min i n)"

definition py_slice :: "'a list \<Rightarrow> int \<Rightarrow> int \<Rightarrow> 'a list" where
  "py_slice xs a b =
     (let n = int (length xs); lo = py_clamp n a; hi = py_clamp n b
      in take (hi - lo) (drop lo xs))"

text \<open>\<^verbatim>\<open>total_batches = (len(bacteria_ids) + self.batch_size - 1) // self.batch_size\<close>\<close>

definition total_batches :: "int \<Rightarrow> int \<Rightarrow> int" where
  "total_batches L B = (L + B - 1) div B"

text \<open>\<^verbatim>\<open>start_batch = (last_idx + 1) // self.batch_size\<close>\<close>

definition start_batch :: "int \<Rightarrow> int \<Rightarrow> int" where
  "start_batch last_idx B = (last_idx + 1) div B"

definition batch_start :: "int \<Rightarrow> int \<Rightarrow> int" where
  "batch_start B k = k * B"

definition batch_end :: "int \<Rightarrow> int \<Rightarrow> int \<Rightarrow> int" where
  "batch_end L B k = min (batch_start B k + B) L"

text \<open>\<^verbatim>\<open>batch_ids = bacteria_ids[batch_start:batch_end]\<close>\<close>

definition batch_ids :: "string list \<Rightarrow> int \<Rightarrow> int \<Rightarrow> string list" where
  "batch_ids ids B k = py_slice ids (batch_start B k) (batch_end (int (length ids)) B k)"

text \<open>\<^verbatim>\<open>range(start_batch, total_batches)\<close>\<close>

definition batch_range :: "int \<Rightarrow> int \<Rightarrow> int \<Rightarrow> int list" where
  "batch_range L B last_idx = [start_batch last_idx B .. total_batches L B - 1]"

text \<open>The truncation to \<^verbatim>\<open>max_bacteria\<close> (\<^verbatim>\<open>None\<close> and \<^verbatim>\<open>0\<close> are both falsy).\<close>

definition limit_ids :: "int option \<Rightarrow> string list \<Rightarrow> string list" where
  "limit_ids max_bacteria ids =
     (case max_bacteria of
        None \<Rightarrow> ids
      | Some m \<Rightarrow> if m \<noteq> 0 \<and> m < int (length ids) then py_slice ids 0 m else ids)"

section \<open>The progress store\<close>

definition zero_progress :: progress where
  "zero_progress = \<lparr>last_processed_idx = - 1, successful_ids = {}, failed_ids = {}\<rparr>"

text \<open>The dictionary literal that \<^verbatim>\<open>_load_progress\<close> returns in place of a file.\<close>

definition zero_record :: json where
  "zero_record = JObj [(''last_processed_idx'', JInt (- 1)),
                       (''successful_ids'', JArr []),
                       (''failed_ids'', JArr [])]"

text \<open>
  The dictionary that \<^verbatim>\<open>process_batches\<close> builds from a snapshot (source lines 160 to 164
  and 196 to 200) and \<^verbatim>\<open>json.dump\<close> writes, and the file that holds it.
\<close>

definition dump :: "progress \<Rightarrow> json" where
  "dump p = JObj [(''last_processed_idx'', JInt (last_processed_idx p)),
                  (''successful_ids'', JSet (successful_ids p)),
                  (''failed_ids'', JSet (failed_ids p))]"

abbreviation Json :: "progress \<Rightarrow> pfile" where
  "Json p \<equiv> Loadable (dump p)"

definition emit :: "event \<Rightarrow> world \<Rightarrow> world" where
  "emit e w = w\<lparr>trace := trace w @ [e]\<rparr>"

text \<open>
  \<^verbatim>\<open>_load_progress\<close>: what \<^verbatim>\<open>json.load\<close> returns when the file exists and loads, with no
  check of its shape; otherwise the zero record, after \<^verbatim>\<open>logger.error\<close> when loading
  raised.
\<close>

definition load_progress :: "world \<Rightarrow> json \<times> world" where
  "load_progress w =
     (case progress_file w of
        Missing \<Rightarrow> (zero_record, w)
      | Unreadable \<Rightarrow> (zero_record, emit (LogError ''Error loading progress file'') w)
      | Loadable j \<Rightarrow> (j, w))"

text \<open>
  The reads of the loaded value in \<^verbatim>\<open>process_batches\<close> (source lines 98 to 100 and 106),
  which stand before the \<^verbatim>\<open>try\<close>. No handler is in scope there, so the message of an
  exception raised by them is never read, and the model gives its class.

  \<^verbatim>\<open>progress[key]\<close>: only a dictionary takes a string as subscript, and it raises
  \<^verbatim>\<open>KeyError\<close> for a key it does not hold; of a key that the text repeats,
  \<^verbatim>\<open>json.load\<close> keeps the last value.
\<close>

fun subscript :: "json \<Rightarrow> string \<Rightarrow> exn + json" where
  "subscript (JObj kvs) k =
     (case map_of (rev kvs) k of
        Some v \<Rightarrow> Inr v
      | None \<Rightarrow> Inl (Exception ''KeyError''))"
| "subscript j k = Inl (Exception ''TypeError'')"

text \<open>
  \<^verbatim>\<open>set(...)\<close>: a list gives its elements, which must be hashable (a list or a dictionary
  is not); a string gives its characters, a dictionary its keys; \<^verbatim>\<open>None\<close>, a boolean and
  an integer are not iterable. Identifiers are strings (\<^verbatim>\<open>List[str]\<close>): a hashable element
  of another type is equal to no identifier, so no test of line 117 sees it, and the set of
  the model leaves it out (the counts of the scrape log and the lists written back are
  then those of the strings alone).
\<close>

fun hashable :: "json \<Rightarrow> bool" where
  "hashable (JArr xs) = False"
| "hashable (JSet S) = False"
| "hashable (JObj kvs) = False"
| "hashable j = True"

fun strings_of :: "json \<Rightarrow> string list" where
  "strings_of (JStr s) = [s]"
| "strings_of j = []"

fun py_set :: "json \<Rightarrow> exn + string set" where
  "py_set (JArr xs) =
     (if list_all hashable xs then Inr (set (concat (map strings_of xs)))
      else Inl (Exception ''TypeError''))"
| "py_set (JSet S) = Inr S"
| "py_set (JStr s) = Inr (set (map (\<lambda>c. [c]) s))"
| "py_set (JObj kvs) = Inr (set (map fst kvs))"
| "py_set j = Inl (Exception ''TypeError'')"

text \<open>
  Source lines 98 to 100: \<^verbatim>\<open>last_idx = progress["last_processed_idx"]\<close>, with no check of
  the value, then the two sets.
\<close>

definition read_fields :: "json \<Rightarrow> exn + json \<times> string set \<times> string set" where
  "read_fields progress =
     (case subscript progress ''last_processed_idx'' of
        Inl e \<Rightarrow> Inl e
      | Inr last_idx \<Rightarrow>
          (case subscript progress ''successful_ids'' of
             Inl e \<Rightarrow> Inl e
           | Inr a \<Rightarrow>
               (case py_set a of
                  Inl e \<Rightarrow> Inl e
                | Inr S \<Rightarrow>
                    (case subscript progress ''failed_ids'' of
                       Inl e \<Rightarrow> Inl e
                     | Inr b \<Rightarrow>
                         (case py_set b of
                            Inl e \<Rightarrow> Inl e
                          | Inr F \<Rightarrow> Inr (last_idx, S, F))))))"

text \<open>
  \<^verbatim>\<open>last_idx + 1\<close> of line 106: an integer, or a boolean, which Python counts as 0 or 1
  (the model keeps the number); \<^verbatim>\<open>None\<close>, a string, a list and a dictionary raise
  \<^verbatim>\<open>TypeError\<close>.
\<close>

fun as_index :: "json \<Rightarrow> exn + int" where
  "as_index (JInt n) = Inr n"
| "as_index (JBool b) = Inr (if b then 1 else 0)"
| "as_index j = Inl (Exception ''TypeError'')"

text \<open>Lines 98 to 106 together, for a batch size that is not zero.\<close>

definition read_progress :: "json \<Rightarrow> exn + progress" where
  "read_progress progress =
     (case read_fields progress of
        Inl e \<Rightarrow> Inl e
      | Inr (last_idx, S, F) \<Rightarrow>
          (case as_index last_idx of
             Inl e \<Rightarrow> Inl e
           | Inr n \<Rightarrow> Inr \<lparr>last_processed_idx = n, successful_ids = S, failed_ids = F\<rparr>))"

text \<open>
  \<^verbatim>\<open>_save_progress\<close>: \<^verbatim>\<open>open(..., 'w')\<close> truncates, \<^verbatim>\<open>json.dump\<close> writes; an exception of
  either is logged and swallowed. A failed \<^verbatim>\<open>open\<close> leaves the file as it was, a failed
  dump leaves a truncated file.
\<close>

definition save_progress :: "env \<Rightarrow> progress \<Rightarrow> world \<Rightarrow> world" where
  "save_progress en p w =
     (emit (SaveProgress p) w)\<lparr>progress_file :=
        (case write_fault en (length (trace w)) of
           Written \<Rightarrow> Json p
         | OpenFailed \<Rightarrow> progress_file w
         | DumpFailed \<Rightarrow> Unreadable)\<rparr>"

section \<open>The fetcher\<close>

text \<open>
  \<^verbatim>\<open>get_page\<close>: \<open>n\<close> attempts are left. \<^verbatim>\<open>time.sleep\<close> raises \<^verbatim>\<open>ValueError\<close> on a
  negative delay: inside the \<^verbatim>\<open>try\<close> it is caught, and the handler's own \<^verbatim>\<open>time.sleep\<close>
  raises it again, out of \<^verbatim>\<open>get_page\<close>. A \<^verbatim>\<open>KeyboardInterrupt\<close> during the request is not
  an \<^verbatim>\<open>Exception\<close> and leaves \<^verbatim>\<open>get_page\<close> at once.
\<close>

fun get_page_loop ::
  "env \<Rightarrow> real \<Rightarrow> string \<Rightarrow> nat \<Rightarrow> event list \<Rightarrow> (exn + string option) \<times> event list" where
  "get_page_loop en d url 0 tr = (Inr None, tr)"
| "get_page_loop en d url (Suc n) tr =
     (if d < 0 then (Inl (Exception ''sleep length must be non-negative''), tr)
      else
        (let tr1 = tr @ [Sleep d]; tr2 = tr1 @ [HttpGet url]
         in case http_get en (length tr1) url of
              Response status text \<Rightarrow>
                if status = 200 then (Inr (Some text), tr2)
                else get_page_loop en d url n (tr2 @ [Sleep d])
            | RequestError m \<Rightarrow> get_page_loop en d url n (tr2 @ [Sleep d])
            | Interrupted \<Rightarrow> (Inl KeyboardInterrupt, tr2)))"

text \<open>\<^verbatim>\<open>for attempt in range(retries)\<close>: a negative \<^verbatim>\<open>retries\<close> gives no attempt.\<close>

definition get_page ::
  "env \<Rightarrow> real \<Rightarrow> string \<Rightarrow> int \<Rightarrow> event list \<Rightarrow> (exn + string option) \<times> event list" where
  "get_page en d url retries tr = get_page_loop en d url (nat retries) tr"

definition detail_url :: "string \<Rightarrow> string" where
  "detail_url bacteria_id = ''https://mimedb.org/microbes/'' @ bacteria_id"

text \<open>
  \<^verbatim>\<open>scrape_bacteria\<close>: \<^verbatim>\<open>get_page(detail_url)\<close> with the default of three retries; a
  \<^verbatim>\<open>None\<close> or empty page gives \<^verbatim>\<open>None\<close>, any other page is parsed.
\<close>

definition scrape_bacteria ::
  "env \<Rightarrow> config \<Rightarrow> string \<Rightarrow> world \<Rightarrow> (exn + attrs option) \<times> world" where
  "scrape_bacteria en cfg bacteria_id w =
     (let w0 = emit (ScrapeBacteria bacteria_id) w;
          (r, tr) = get_page en (delay cfg) (detail_url bacteria_id) 3 (trace w0);
          w1 = w0\<lparr>trace := tr\<rparr>
      in case r of
           Inl e \<Rightarrow> (Inl e, w1)
         | Inr None \<Rightarrow> (Inr None, w1)
         | Inr (Some html) \<Rightarrow>
             if html = [] then (Inr None, w1)
             else (Inr (Some (parse_bacteria_page en html)), w1))"

text \<open>
  The inner loop of \<^verbatim>\<open>process_batches\<close> over \<^verbatim>\<open>batch_to_process\<close>, with the three local
  lists \<^verbatim>\<open>batch_data\<close>, \<^verbatim>\<open>local_successful\<close>, \<^verbatim>\<open>local_failed\<close>. \<^verbatim>\<open>except Exception\<close> does
  not catch a \<^verbatim>\<open>KeyboardInterrupt\<close>; an empty dictionary is falsy.
\<close>

fun scrape_items ::
  "env \<Rightarrow> config \<Rightarrow> string list \<Rightarrow> attrs list \<times> string list \<times> string list \<Rightarrow> world \<Rightarrow>
   exn option \<times> (attrs list \<times> string list \<times> string list) \<times> world" where
  "scrape_items en cfg [] acc w = (None, acc, w)"
| "scrape_items en cfg (b # bs) (batch_data, local_successful, local_failed) w =
     (case scrape_bacteria en cfg b w of
        (Inl KeyboardInterrupt, w1) \<Rightarrow>
          (Some KeyboardInterrupt, (batch_data, local_successful, local_failed), w1)
      | (Inl (Exception m), w1) \<Rightarrow>
          scrape_items en cfg bs (batch_data, local_successful, local_failed @ [b]) w1
      | (Inr None, w1) \<Rightarrow>
          scrape_items en cfg bs (batch_data, local_successful, local_failed @ [b]) w1
      | (Inr (Some bacteria_data), w1) \<Rightarrow>
          if bacteria_data \<noteq> []
          then scrape_items en cfg bs
                 (batch_data @ [bacteria_data], local_successful @ [b], local_failed) w1
          else scrape_items en cfg bs (batch_data, local_successful, local_failed @ [b]) w1)"

section \<open>The persistence gateway\<close>

text \<open>
  \<^verbatim>\<open>commit\<close> inserts the pending objects under fresh primary keys and makes the working
  rows and the log object the stored ones; \<^verbatim>\<open>rollback\<close> discards everything uncommitted.
\<close>

definition commit :: "session \<Rightarrow> session" where
  "commit s =
     (let t = working s @ map (\<lambda>(i, d). \<lparr>pk = i, cols = d\<rparr>) (enumerate (next_pk s) (pending s))
      in s\<lparr>table := t, working := t, pending := [],
            next_pk := next_pk s + length (pending s), log_stored := log s\<rparr>)"

definition rollback :: "session \<Rightarrow> session" where
  "rollback s = s\<lparr>working := table s, pending := [], log := log_stored s\<rparr>"

text \<open>\<^verbatim>\<open>query(Bacteria).filter(Bacteria.bacteria_id == v).first()\<close>, on the stored rows.\<close>

definition find_existing :: "val \<Rightarrow> row list \<Rightarrow> row option" where
  "find_existing v rows = find (\<lambda>r. map_of (cols r) ''bacteria_id'' = Some v) rows"

text \<open>\<^verbatim>\<open>for key, value in data.items(): if hasattr(existing, key): setattr(existing, key, value)\<close>\<close>

definition set_attrs :: "(string \<Rightarrow> bool) \<Rightarrow> attrs \<Rightarrow> attrs \<Rightarrow> attrs" where
  "set_attrs has data c = fold (\<lambda>(k, v) c'. if has k then AList.update k v c' else c') data c"

definition update_row :: "(string \<Rightarrow> bool) \<Rightarrow> row \<Rightarrow> attrs \<Rightarrow> session \<Rightarrow> session" where
  "update_row has existing data s =
     s\<lparr>working := map (\<lambda>r. if pk r = pk existing then r\<lparr>cols := set_attrs has data (cols r)\<rparr> else r)
                     (working s)\<rparr>"

definition delete_row :: "row \<Rightarrow> session \<Rightarrow> session" where
  "delete_row existing s = s\<lparr>working := filter (\<lambda>r. pk r \<noteq> pk existing) (working s)\<rparr>"

text \<open>\<^verbatim>\<open>Bacteria(**data)\<close> raises \<^verbatim>\<open>TypeError\<close> for a key that is no attribute of the class.\<close>

definition constructible :: "(string \<Rightarrow> bool) \<Rightarrow> attrs \<Rightarrow> bool" where
  "constructible has data = list_all (\<lambda>(k, v). has k) data"

definition add_row :: "attrs \<Rightarrow> session \<Rightarrow> session" where
  "add_row data s = s\<lparr>pending := pending s @ [data]\<rparr>"

text \<open>
  The loop of \<^verbatim>\<open>_save_batch_to_db\<close> over \<^verbatim>\<open>batch_data\<close>, item \<open>i\<close> first. It returns the
  session as the exception left it: the caller rolls back.
\<close>

fun stage_batch ::
  "env \<Rightarrow> nat option \<Rightarrow> nat \<Rightarrow> attrs list \<Rightarrow> session \<Rightarrow> string option \<times> session" where
  "stage_batch en flt i [] s = (None, s)"
| "stage_batch en flt i (data # rest) s =
     (case map_of data ''bacteria_id'' of
        None \<Rightarrow> (Some ''KeyError: bacteria_id'', s)
      | Some v \<Rightarrow>
          if flt = Some i then (Some ''database error'', s)
          else
            (case find_existing v (table s) of
               Some existing \<Rightarrow> stage_batch en flt (Suc i) rest (update_row (has_attr en) existing data s)
             | None \<Rightarrow>
                 if constructible (has_attr en) data
                 then stage_batch en flt (Suc i) rest (add_row data s)
                 else (Some ''TypeError: invalid keyword argument'', s)))"

text \<open>
  \<^verbatim>\<open>_save_batch_to_db\<close>: one transaction; on any \<^verbatim>\<open>Exception\<close> it rolls back and raises
  again. The result is the message of the exception raised, if any.
\<close>

definition save_batch_to_db :: "env \<Rightarrow> attrs list \<Rightarrow> world \<Rightarrow> string option \<times> world" where
  "save_batch_to_db en batch_data w =
     (let flt = db_fault en (length (trace w));
          w1 = emit (SaveBatchToDb batch_data) w
      in case stage_batch en flt 0 batch_data (sess w) of
           (Some m, s) \<Rightarrow> (Some m, w1\<lparr>sess := rollback s\<rparr>)
         | (None, s) \<Rightarrow>
             (case flt of
                Some j \<Rightarrow> (Some ''database error'', w1\<lparr>sess := rollback s\<rparr>)
              | None \<Rightarrow> (None, w1\<lparr>sess := commit s\<rparr>)))"

text \<open>
  \<^verbatim>\<open>save_bacteria\<close> of \<^verbatim>\<open>MimeDBScraper\<close>. \<open>flt k\<close> tells whether the \<open>k\<close>-th statement sent
  to the database by this call (the query, then each commit) raises.
\<close>

definition insert_new ::
  "(string \<Rightarrow> bool) \<Rightarrow> bool \<Rightarrow> attrs \<Rightarrow> session \<Rightarrow> bool \<times> session option" where
  "insert_new has fault data s =
     (if \<not> constructible has data then (False, Some (rollback s))
      else if fault then (False, Some (rollback (add_row data s)))
      else (True, Some (commit (add_row data s))))"

definition update_existing ::
  "(string \<Rightarrow> bool) \<Rightarrow> bool \<Rightarrow> row \<Rightarrow> attrs \<Rightarrow> session \<Rightarrow> bool \<times> session option" where
  "update_existing has fault existing data s =
     (if fault then (False, Some (rollback (update_row has existing data s)))
      else (True, Some (commit (update_row has existing data s))))"

definition save_bacteria ::
  "(string \<Rightarrow> bool) \<Rightarrow> (nat \<Rightarrow> bool) \<Rightarrow> session option \<Rightarrow> attrs \<Rightarrow> string \<Rightarrow>
   bool \<times> session option" where
  "save_bacteria has flt db_session bacteria_data duplicate_action =
     (case db_session of
        None \<Rightarrow> (False, None)
      | Some s \<Rightarrow>
          (case map_of bacteria_data ''bacteria_id'' of
             None \<Rightarrow> (False, Some (rollback s))
           | Some v \<Rightarrow>
               if flt 0 then (False, Some (rollback s))
               else
                 (case find_existing v (table s) of
                    Some existing \<Rightarrow>
                      if duplicate_action = ''skip'' then (True, Some s)
                      else if duplicate_action = ''update''
                        then update_existing has (flt 1) existing bacteria_data s
                      else if duplicate_action = ''force''
                        then (if flt 1 then (False, Some (rollback (delete_row existing s)))
                              else insert_new has (flt 2) bacteria_data
                                     (commit (delete_row existing s)))
                      else update_existing has (flt 1) existing bacteria_data s
                  | None \<Rightarrow> insert_new has (flt 1) bacteria_data s)))"

section \<open>The batch orchestrator\<close>

text \<open>The locals of \<^verbatim>\<open>process_batches\<close> that the loop changes, and the world.\<close>

record run_state =
  st_progress :: progress
  st_successful :: "string set"
  st_failed :: "string set"
  st_world :: world

text \<open>Assignments to attributes of \<^verbatim>\<open>self.scrape_log\<close>.\<close>

definition set_log :: "(scrape_log \<Rightarrow> scrape_log) \<Rightarrow> world \<Rightarrow> world" where
  "set_log f w = w\<lparr>sess := (sess w)\<lparr>log := f (log (sess w))\<rparr>\<rparr>"

text \<open>\<^verbatim>\<open>self.db_session.commit()\<close> outside the batch save; a failed commit changes nothing.\<close>

definition commit_session :: "env \<Rightarrow> world \<Rightarrow> string option \<times> world" where
  "commit_session en w =
     (case commit_fault en (length (trace w)) of
        None \<Rightarrow> (None, (emit Commit w)\<lparr>sess := commit (sess w)\<rparr>)
      | Some m \<Rightarrow> (Some m, emit Commit w))"

text \<open>\<^verbatim>\<open>[bid for bid in batch_ids if bid not in successful_ids and bid not in failed_ids]\<close>\<close>

definition batch_to_process :: "string set \<Rightarrow> string set \<Rightarrow> string list \<Rightarrow> string list" where
  "batch_to_process S F bids = filter (\<lambda>bid. bid \<notin> S \<and> bid \<notin> F) bids"

text \<open>
  What follows the inner loop (source lines 143 to 173): the batch save when there is
  data, the update of the two sets, the checkpoint, and the update of the scrape log.
\<close>

definition finish_batch ::
  "env \<Rightarrow> int \<Rightarrow> attrs list \<times> string list \<times> string list \<Rightarrow> run_state \<Rightarrow> world \<Rightarrow>
   exn option \<times> run_state" where
  "finish_batch en last_pos acc st w1 =
     (case acc of (batch_data, local_successful, local_failed) \<Rightarrow>
        (let (S1, F1, w2) =
               (if batch_data \<noteq> []
                then (case save_batch_to_db en batch_data w1 of
                        (None, w') \<Rightarrow> (st_successful st \<union> set local_successful, st_failed st, w')
                      | (Some m, w') \<Rightarrow> (st_successful st, st_failed st \<union> set local_successful, w'))
                else (st_successful st, st_failed st, w1));
             F2 = F1 \<union> set local_failed;
             p = \<lparr>last_processed_idx = last_pos, successful_ids = S1, failed_ids = F2\<rparr>;
             w3 = save_progress en p w2;
             w4 = set_log (\<lambda>l. l\<lparr>successful_scrapes := Some (card S1),
                                  failed_scrapes := Some (card F2)\<rparr>) w3;
             (r, w5) = commit_session en w4
         in (map_option Exception r,
             \<lparr>st_progress = p, st_successful = S1, st_failed = F2, st_world = w5\<rparr>)))"

text \<open>One iteration of \<^verbatim>\<open>for batch_idx in range(start_batch, total_batches)\<close>.\<close>

definition process_batch ::
  "env \<Rightarrow> config \<Rightarrow> string list \<Rightarrow> int \<Rightarrow> run_state \<Rightarrow> exn option \<times> run_state" where
  "process_batch en cfg ids k st =
     (let B = batch_size cfg; L = int (length ids);
          todo = batch_to_process (st_successful st) (st_failed st) (batch_ids ids B k)
      in if todo = [] then (None, st)
         else (case scrape_items en cfg todo ([], [], []) (st_world st) of
                 (Some e, acc, w1) \<Rightarrow> (Some e, st\<lparr>st_world := w1\<rparr>)
               | (None, acc, w1) \<Rightarrow> finish_batch en (batch_end L B k - 1) acc st w1))"

fun batch_loop ::
  "env \<Rightarrow> config \<Rightarrow> string list \<Rightarrow> int list \<Rightarrow> run_state \<Rightarrow> exn option \<times> run_state" where
  "batch_loop en cfg ids [] st = (None, st)"
| "batch_loop en cfg ids (k # ks) st =
     (case process_batch en cfg ids k st of
        (Some e, st') \<Rightarrow> (Some e, st')
      | (None, st') \<Rightarrow> batch_loop en cfg ids ks st')"

text \<open>The body of the \<^verbatim>\<open>try\<close>: the loop, then the final update of the scrape log.\<close>

definition try_body ::
  "env \<Rightarrow> config \<Rightarrow> string list \<Rightarrow> int \<Rightarrow> run_state \<Rightarrow> exn option \<times> run_state" where
  "try_body en cfg ids last_idx st0 =
     (case batch_loop en cfg ids (batch_range (int (length ids)) (batch_size cfg) last_idx) st0 of
        (Some e, st) \<Rightarrow> (Some e, st)
      | (None, st) \<Rightarrow>
          (let w = st_world st;
               w1 = set_log (\<lambda>l. l\<lparr>end_time := Some (length (trace w)),
                                    total_urls := Some (length ids),
                                    successful_scrapes := Some (card (st_successful st)),
                                    failed_scrapes := Some (card (st_failed st))\<rparr>) w;
               (r, w2) = commit_session en w1
           in (map_option Exception r, st\<lparr>st_world := w2\<rparr>)))"

text \<open>
  The two handlers, \<^verbatim>\<open>except KeyboardInterrupt\<close> and \<^verbatim>\<open>except Exception as e\<close>: neither
  raises again, only the handler's own commit can.
\<close>

fun abort_message :: "exn \<Rightarrow> string" where
  "abort_message KeyboardInterrupt = ''Interrupted by user''"
| "abort_message (Exception m) = m"

definition except_handler :: "env \<Rightarrow> exn \<Rightarrow> world \<Rightarrow> exn option \<times> world" where
  "except_handler en e w =
     (let w1 = set_log (\<lambda>l. l\<lparr>end_time := Some (length (trace w)),
                               error_message := Some (abort_message e)\<rparr>) w;
          (r, w2) = commit_session en w1
      in (map_option Exception r, w2))"

text \<open>The snapshot written by the \<^verbatim>\<open>finally\<close> block.\<close>

definition final_progress :: "int \<Rightarrow> run_state \<Rightarrow> progress" where
  "final_progress last_idx st =
     \<lparr>last_processed_idx = max last_idx (last_processed_idx (st_progress st)),
      successful_ids = st_successful st, failed_ids = st_failed st\<rparr>"

definition initial_state :: "progress \<Rightarrow> world \<Rightarrow> run_state" where
  "initial_state p w =
     \<lparr>st_progress = p, st_successful = successful_ids p, st_failed = failed_ids p, st_world = w\<rparr>"

text \<open>
  \<^verbatim>\<open>process_batches\<close>, given the result of \<^verbatim>\<open>get_bacteria_ids\<close>. The result is the
  exception that leaves the method, if any. The reads of the loaded value and the
  division by a zero batch size stand before the \<^verbatim>\<open>try\<close>, so their exceptions leave the
  method with no cleanup: no handler runs and no final snapshot is saved.
\<close>

definition process_batches ::
  "env \<Rightarrow> config \<Rightarrow> string list \<Rightarrow> int option \<Rightarrow> world \<Rightarrow> exn option \<times> world" where
  "process_batches en cfg discovered max_bacteria w =
     (let ids = limit_ids max_bacteria discovered;
          (progress, w0) = load_progress w
      in case read_fields progress of
           Inl e \<Rightarrow> (Some e, w0)
         | Inr (cursor, S, F) \<Rightarrow>
             if batch_size cfg = 0
             then (Some (Exception ''integer division or modulo by zero''), w0)
             else
               (case as_index cursor of
                  Inl e \<Rightarrow> (Some e, w0)
                | Inr last_idx \<Rightarrow>
                    (let p0 = \<lparr>last_processed_idx = last_idx, successful_ids = S,
                                failed_ids = F\<rparr>;
                         (r1, st1) = try_body en cfg ids last_idx (initial_state p0 w0);
                         (r2, w2) = (case r1 of
                                       None \<Rightarrow> (None, st_world st1)
                                     | Some e \<Rightarrow> except_handler en e (st_world st1))
                     in (r2, save_progress en (final_progress last_idx st1) w2))))"

section \<open>Reading the trace\<close>

text \<open>The calls of one kind recorded in a trace, in order.\<close>

fun scraped_of :: "event \<Rightarrow> string list" where
  "scraped_of (ScrapeBacteria b) = [b]"
| "scraped_of e = []"

fun requested_of :: "event \<Rightarrow> string list" where
  "requested_of (HttpGet u) = [u]"
| "requested_of e = []"

fun saved_of :: "event \<Rightarrow> progress list" where
  "saved_of (SaveProgress p) = [p]"
| "saved_of e = []"

fun persisted_of :: "event \<Rightarrow> attrs list list" where
  "persisted_of (SaveBatchToDb d) = [d]"
| "persisted_of e = []"

definition scrapes :: "event list \<Rightarrow> string list" where
  "scrapes tr = concat (map scraped_of tr)"

definition requests :: "event list \<Rightarrow> string list" where
  "requests tr = concat (map requested_of tr)"

definition saves :: "event list \<Rightarrow> progress list" where
  "saves tr = concat (map saved_of tr)"

definition db_saves :: "event list \<Rightarrow> attrs list list" where
  "db_saves tr = concat (map persisted_of tr)"

text \<open>The events a step added to the trace.\<close>

definition new_events :: "world \<Rightarrow> world \<Rightarrow> event list" where
  "new_events w w' = drop (length (trace w)) (trace w')"

text \<open>A response that makes \<^verbatim>\<open>get_page\<close> try again: a transport error or a status other than 200.\<close>

fun fetch_failed :: "http_result \<Rightarrow> bool" where
  "fetch_failed (Response status text) = (status \<noteq> 200)"
| "fetch_failed (RequestError m) = True"
| "fetch_failed Interrupted = False"

text \<open>
  The invariant of the progress record with respect to a discovery sequence: the two sets
  are disjoint, and every position up to the cursor holds an identifier of one of them.
\<close>

definition progress_invariant :: "string list \<Rightarrow> progress \<Rightarrow> bool" where
  "progress_invariant ids p \<longleftrightarrow>
     successful_ids p \<inter> failed_ids p = {} \<and>
     (\<forall>i < length ids. int i \<le> last_processed_idx p \<longrightarrow>
        ids ! i \<in> successful_ids p \<union> failed_ids p)"

section \<open>Concrete inputs\<close>

definition empty_log :: scrape_log where
  "empty_log = \<lparr>end_time = None, total_urls = None, successful_scrapes = None,
                  failed_scrapes = None, error_message = None\<rparr>"

definition empty_session :: session where
  "empty_session = \<lparr>table = [], working = [], pending = [], next_pk = 0,
                      log = empty_log, log_stored = empty_log\<rparr>"

text \<open>
  A remote site that answers every request with the requested URL as the page, a parser
  that reads the identifier off the end of such a page, and no faults.
\<close>

definition env_ok :: env where
  "env_ok = \<lparr>http_get = (\<lambda>t u. Response 200 u),
              parse_bacteria_page = (\<lambda>html. [(''bacteria_id'', Str (drop 28 html))]),
              has_attr = (\<lambda>k. k = ''bacteria_id'' \<or> k = ''name''),
              db_fault = (\<lambda>t. None),
              commit_fault = (\<lambda>t. None),
              write_fault = (\<lambda>t. Written)\<rparr>"

text \<open>The same site, unreachable for the item \<^verbatim>\<open>b\<close>.\<close>

definition env_b_down :: env where
  "env_b_down = env_ok\<lparr>http_get :=
      (\<lambda>t u. if u = detail_url ''b'' then RequestError ''timeout'' else Response 200 u)\<rparr>"

text \<open>The same site, with a database that fails every batch save at its commit.\<close>

definition env_db_down :: env where
  "env_db_down = env_ok\<lparr>db_fault := (\<lambda>t. Some 10)\<rparr>"

text \<open>The same site, with the operator interrupting every request.\<close>

definition env_interrupt :: env where
  "env_interrupt = env_ok\<lparr>http_get := (\<lambda>t u. Interrupted)\<rparr>"

definition cfg2 :: config where
  "cfg2 = \<lparr>batch_size = 2, delay = 0\<rparr>"

definition w_fresh :: world where
  "w_fresh = \<lparr>trace = [], sess = empty_session, progress_file = Missing\<rparr>"

text \<open>A world whose progress file says that \<^verbatim>\<open>a\<close> succeeded and \<^verbatim>\<open>b\<close> failed.\<close>

definition w_resumed :: world where
  "w_resumed = \<lparr>trace = [], sess = empty_session,
      progress_file = Json \<lparr>last_processed_idx = 1, successful_ids = {''a''}, failed_ids = {''b''}\<rparr>\<rparr>"

text \<open>A session that stores \<^verbatim>\<open>X001\<close> under the name \<^verbatim>\<open>A\<close>, and two scraped records.\<close>

definition row_x001 :: row where
  "row_x001 = \<lparr>pk = 0, cols = [(''bacteria_id'', Str ''X001''), (''name'', Str ''A'')]\<rparr>"

definition session_x001 :: session where
  "session_x001 = \<lparr>table = [row_x001], working = [row_x001], pending = [], next_pk = 1,
                     log = empty_log, log_stored = empty_log\<rparr>"

definition data_x001 :: attrs where
  "data_x001 = [(''bacteria_id'', Str ''X001''), (''name'', Str ''B'')]"

definition data_x002 :: attrs where
  "data_x002 = [(''bacteria_id'', Str ''X002''), (''name'', Str ''C'')]"

text \<open>A fresh world whose progress file does not load.\<close>

definition w_unreadable :: world where
  "w_unreadable = \<lparr>trace = [], sess = empty_session, progress_file = Unreadable\<rparr>"

text \<open>A fresh world whose progress file holds the empty dictionary, \<^verbatim>\<open>{}\<close>.\<close>

definition w_empty_dict :: world where
  "w_empty_dict = \<lparr>trace = [], sess = empty_session, progress_file = Loadable (JObj [])\<rparr>"

text \<open>A fresh world whose progress file holds a record with \<^verbatim>\<open>null\<close> for its cursor.\<close>

definition w_null_cursor :: world where
  "w_null_cursor = \<lparr>trace = [], sess = empty_session,
      progress_file = Loadable (JObj [(''last_processed_idx'', JNull),
                                      (''successful_ids'', JArr [JStr ''a'']),
                                      (''failed_ids'', JArr [])])\<rparr>"

text \<open>The healthy site, except that the item \<^verbatim>\<open>b\<close> cannot be reached before time 20.\<close>

definition env_b_late :: env where
  "env_b_late = env_ok\<lparr>http_get :=
      (\<lambda>t u. if u = detail_url ''b'' \<and> t < 20 then RequestError ''timeout''
             else Response 200 u)\<rparr>"

section \<open>The batch arithmetic\<close>

lemma py_slice_nonneg:
  assumes "0 \<le> a" "0 \<le> b"
  shows "py_slice xs a b = take (nat b - nat a) (drop (nat a) xs)"
  using assms
  by (auto simp: py_slice_def py_clamp_def Let_def min_def)

lemma batch_ids_nonneg:
  assumes "0 < B" "0 \<le> k"
  shows "batch_ids ids B k = take (nat B) (drop (nat (k * B)) ids)"
proof -
  have kb: "0 \<le> k * B" using assms by simp
  have "batch_ids ids B k = take (nat (min (k * B + B) (int (length ids))) - nat (k * B)) (drop (nat (k * B)) ids)"
    unfolding batch_ids_def batch_start_def batch_end_def
    using kb assms by (intro py_slice_nonneg) auto
  also have "\<dots> = take (nat B) (drop (nat (k * B)) ids)"
    using kb assms by (auto simp: min_def nat_add_distrib)
  finally show ?thesis .
qed

lemma total_batches_ceiling:
  assumes "0 < B"
  shows "total_batches L B = \<lceil>real_of_int L / real_of_int B\<rceil>"
proof -
  have c: "\<lceil>real_of_int L / real_of_int B\<rceil> = - ((- L) div B)"
    by (rule ceiling_divide_eq_div)
  have r: "0 \<le> L mod B" "L mod B < B" using assms by simp_all
  have "(L + B - 1) div B = - ((- L) div B)"
  proof (cases "L mod B = 0")
    case True
    have "L = B * (L div B) + L mod B" by simp
    then have "L + B - 1 = B * (L div B) + (B - 1)" using True by simp
    then have "(L + B - 1) div B = L div B"
      using assms by (intro int_div_pos_eq[where r = "B - 1"]) auto
    moreover have "(- L) div B = - (L div B)"
      using True assms by (simp add: zdiv_zminus1_eq_if)
    ultimately show ?thesis by simp
  next
    case False
    have "L = B * (L div B) + L mod B" by simp
    then have "L + B - 1 = B * (L div B + 1) + (L mod B - 1)" by (simp add: algebra_simps)
    then have "(L + B - 1) div B = L div B + 1"
      using assms r False by (intro int_div_pos_eq[where r = "L mod B - 1"]) auto
    moreover have "(- L) div B = - (L div B) - 1"
      using False assms by (simp add: zdiv_zminus1_eq_if)
    ultimately show ?thesis by simp
  qed
  then show ?thesis by (simp add: total_batches_def c)
qed

lemma pos_in_batch:
  assumes "0 < B" "i < length ids"
  shows "nat (int i mod B) < length (batch_ids ids B (int i div B)) \<and>
         batch_ids ids B (int i div B) ! nat (int i mod B) = ids ! i"
proof -
  let ?k = "int i div B"
  have k: "0 \<le> ?k" using assms by (simp add: pos_imp_zdiv_nonneg_iff)
  have m: "0 \<le> int i mod B" "int i mod B < B" using assms by simp_all
  have eq: "int i = ?k * B + int i mod B" by simp
  have kb: "0 \<le> ?k * B" using k assms by simp
  have i_eq: "i = nat (?k * B) + nat (int i mod B)"
    using eq kb m by (metis nat_add_distrib nat_int)
  have b: "batch_ids ids B ?k = take (nat B) (drop (nat (?k * B)) ids)"
    by (rule batch_ids_nonneg[OF assms(1) k])
  have l1: "nat (int i mod B) < nat B" using m assms by simp
  have l2: "nat (int i mod B) < length ids - nat (?k * B)" using i_eq assms(2) by linarith
  show ?thesis
    unfolding b using l1 l2 i_eq by (simp add: add.commute)
qed


lemma batch_elem_position:
  assumes "0 < B" "0 \<le> k" "j < length (batch_ids ids B k)"
  shows "batch_ids ids B k ! j = ids ! (nat (k * B) + j) \<and> int (nat (k * B) + j) div B = k
         \<and> nat (k * B) + j < length ids"
proof -
  have kb: "0 \<le> k * B" using assms by simp
  have b: "batch_ids ids B k = take (nat B) (drop (nat (k * B)) ids)"
    by (rule batch_ids_nonneg[OF assms(1,2)])
  have j: "j < nat B" "nat (k * B) + j < length ids" using assms(3) unfolding b by auto
  have "int (nat (k * B) + j) = k * B + int j" using kb by simp
  moreover have "(k * B + int j) div B = k"
    using j(1) assms(1) by (intro int_div_pos_eq[where r = "int j"]) (auto simp: algebra_simps)
  ultimately show ?thesis using j unfolding b by simp
qed

text \<open>
  Claim C4. For a positive batch size \<open>B\<close>, batch membership is positional: the item at flat
  position \<open>i\<close> is the element at offset \<open>i mod B\<close> of batch \<open>i div B\<close>, and every element
  of a batch \<open>k\<close> sits at a flat position whose quotient by \<open>B\<close> is \<open>k\<close>; the number of
  batches is the ceiling of \<open>L / B\<close>; the loop runs over the batch indices from
  \<open>(cursor + 1) div B\<close>. With 25 identifiers and batch size 10 there are three batches of
  sizes 10, 10 and 5, and after a saved cursor of 19 the loop visits batch 2 only, which
  holds the positions 20 to 24.
\<close>

theorem partition_positional:
  assumes "0 < B"
  shows "(\<forall>i < length ids.
            nat (int i mod B) < length (batch_ids ids B (int i div B)) \<and>
            batch_ids ids B (int i div B) ! nat (int i mod B) = ids ! i)
       \<and> (\<forall>k j. 0 \<le> k \<and> j < length (batch_ids ids B k) \<longrightarrow>
            batch_ids ids B k ! j = ids ! (nat (k * B) + j) \<and> int (nat (k * B) + j) div B = k)
       \<and> total_batches (int (length ids)) B = \<lceil>real (length ids) / real_of_int B\<rceil>
       \<and> batch_range (int (length ids)) B cursor =
           [(cursor + 1) div B .. \<lceil>real (length ids) / real_of_int B\<rceil> - 1]
       \<and> (length ids = 25 \<and> B = 10 \<longrightarrow>
            total_batches (int (length ids)) B = 3 \<and>
            map (\<lambda>k. length (batch_ids ids B k)) [0, 1, 2] = [10, 10, 5] \<and>
            batch_range (int (length ids)) B 19 = [2] \<and>
            batch_ids ids B 2 = drop 20 ids)"
proof -
  have t: "total_batches (int (length ids)) B = \<lceil>real (length ids) / real_of_int B\<rceil>"
    using total_batches_ceiling[OF assms, of "int (length ids)"] by simp
  have p1: "\<forall>i < length ids.
            nat (int i mod B) < length (batch_ids ids B (int i div B)) \<and>
            batch_ids ids B (int i div B) ! nat (int i mod B) = ids ! i"
    using pos_in_batch[OF assms] by blast
  have p2: "\<forall>k j. 0 \<le> k \<and> j < length (batch_ids ids B k) \<longrightarrow>
            batch_ids ids B k ! j = ids ! (nat (k * B) + j) \<and> int (nat (k * B) + j) div B = k"
    using batch_elem_position[OF assms] by blast
  have p3: "batch_range (int (length ids)) B cursor =
           [(cursor + 1) div B .. \<lceil>real (length ids) / real_of_int B\<rceil> - 1]"
    unfolding batch_range_def start_batch_def t ..
  have p4: "length ids = 25 \<and> B = 10 \<longrightarrow>
            total_batches (int (length ids)) B = 3 \<and>
            map (\<lambda>k. length (batch_ids ids B k)) [0, 1, 2] = [10, 10, 5] \<and>
            batch_range (int (length ids)) B 19 = [2] \<and>
            batch_ids ids B 2 = drop 20 ids"
  proof
    assume h: "length ids = 25 \<and> B = 10"
    have "batch_ids ids 10 2 = take (nat 10) (drop (nat (2 * 10)) ids)"
      by (rule batch_ids_nonneg) simp_all
    then have d: "batch_ids ids 10 2 = drop 20 ids" using h by simp
    have l: "\<And>k. 0 \<le> k \<Longrightarrow> length (batch_ids ids 10 k) = min 10 (25 - nat (k * 10))"
      using h by (subst batch_ids_nonneg) simp_all
    have "length (batch_ids ids 10 0) = 10" "length (batch_ids ids 10 1) = 10"
         "length (batch_ids ids 10 2) = 5"
      by (simp_all add: l)
    then show "total_batches (int (length ids)) B = 3 \<and>
            map (\<lambda>k. length (batch_ids ids B k)) [0, 1, 2] = [10, 10, 5] \<and>
            batch_range (int (length ids)) B 19 = [2] \<and>
            batch_ids ids B 2 = drop 20 ids"
      using h d by (simp add: total_batches_def batch_range_def start_batch_def upto.simps)
  qed
  show ?thesis using p1 p2 t p3 p4 by blast
qed

theorem partition_positional_witness:
  "batch_ids [''a'', ''b'', ''c''] 2 (int 2 div 2) ! nat (int 2 mod 2) = ''c''
   \<and> total_batches 3 2 = 2
   \<and> batch_range 3 2 1 = [1]
   \<and> batch_ids (map (\<lambda>n. replicate n CHR ''x'') [0..<25]) 10 2
       = drop 20 (map (\<lambda>n. replicate n CHR ''x'') [0..<25])"
proof -
  have b: "(0::int) < 2" by simp
  have c: "(0::int) < 10" by simp
  have l: "length (map (\<lambda>n. replicate n CHR ''x'') [0..<25]) = 25 \<and> (10::int) = 10" by simp
  have "\<forall>i < length [''a'', ''b'', ''c''].
          batch_ids [''a'', ''b'', ''c''] 2 (int i div 2) ! nat (int i mod 2) = [''a'', ''b'', ''c''] ! i"
    using partition_positional[OF b, of "[''a'', ''b'', ''c'']" 1] by blast
  then have "batch_ids [''a'', ''b'', ''c''] 2 (int 2 div 2) ! nat (int 2 mod 2) = [''a'', ''b'', ''c''] ! 2"
    by (metis length_Cons lessI list.size(3) numeral_2_eq_2)
  then have 1: "batch_ids [''a'', ''b'', ''c''] 2 (int 2 div 2) ! nat (int 2 mod 2) = ''c''" by simp
  have 2: "total_batches 3 2 = 2" by (simp add: total_batches_def)
  have 3: "batch_range 3 2 1 = [1]"
    by (simp add: batch_range_def total_batches_def start_batch_def upto.simps)
  have 4: "batch_ids (map (\<lambda>n. replicate n CHR ''x'') [0..<25]) 10 2
       = drop 20 (map (\<lambda>n. replicate n CHR ''x'') [0..<25])"
    using partition_positional[OF c, of "map (\<lambda>n. replicate n CHR ''x'') [0..<25]" 19] l by blast
  show ?thesis using 1 2 3 4 by blast
qed

section \<open>Reading the loaded value\<close>

lemma read_fields_dump [simp]:
  "read_fields (dump p) = Inr (JInt (last_processed_idx p), successful_ids p, failed_ids p)"
  by (simp add: read_fields_def dump_def)

lemma read_progress_dump [simp]: "read_progress (dump p) = Inr p"
  by (simp add: read_progress_def)

lemma read_progress_zero [simp]: "read_progress zero_record = Inr zero_progress"
  by (simp add: read_progress_def read_fields_def zero_record_def zero_progress_def)

lemma dump_inject [simp]: "dump p = dump q \<longleftrightarrow> p = q"
  by (cases p, cases q) (simp add: dump_def)

lemma read_progress_fields:
  assumes "read_progress j = Inr p"
  shows "\<exists>c. read_fields j = Inr (c, successful_ids p, failed_ids p)
             \<and> as_index c = Inr (last_processed_idx p)"
  using assms by (auto simp: read_progress_def split: sum.splits prod.splits)

section \<open>The trace of the fetcher\<close>

lemma scrapes_append [simp]: "scrapes (a @ b) = scrapes a @ scrapes b"
  by (simp add: scrapes_def)
lemma requests_append [simp]: "requests (a @ b) = requests a @ requests b"
  by (simp add: requests_def)
lemma saves_append [simp]: "saves (a @ b) = saves a @ saves b"
  by (simp add: saves_def)
lemma db_saves_append [simp]: "db_saves (a @ b) = db_saves a @ db_saves b"
  by (simp add: db_saves_def)
lemma scrapes_simps [simp]: "scrapes [] = []" "scrapes (e # tr) = scraped_of e @ scrapes tr"
  by (simp_all add: scrapes_def)
lemma requests_simps [simp]: "requests [] = []" "requests (e # tr) = requested_of e @ requests tr"
  by (simp_all add: requests_def)
lemma saves_simps [simp]: "saves [] = []" "saves (e # tr) = saved_of e @ saves tr"
  by (simp_all add: saves_def)
lemma db_saves_simps [simp]: "db_saves [] = []" "db_saves (e # tr) = persisted_of e @ db_saves tr"
  by (simp_all add: db_saves_def)

text \<open>The events of \<open>k\<close> failed attempts.\<close>

lemma get_page_loop_shape:
  "\<exists>k fin. snd (get_page_loop en d url n tr)
             = tr @ concat (replicate k [Sleep d, HttpGet url, Sleep d]) @ fin
         \<and> (fin = [] \<or> fin = [Sleep d, HttpGet url]) \<and> k + length fin div 2 \<le> n"
proof (induction n arbitrary: tr)
  case 0
  show ?case by (rule exI[of _ 0], rule exI[of _ "[]"]) simp
next
  case (Suc n)
  let ?tr' = "tr @ [Sleep d, HttpGet url, Sleep d]"
  from Suc[of ?tr'] obtain k fin where
    h: "snd (get_page_loop en d url n ?tr') = ?tr' @ concat (replicate k [Sleep d, HttpGet url, Sleep d]) @ fin"
       "fin = [] \<or> fin = [Sleep d, HttpGet url]" "k + length fin div 2 \<le> n" by blast
  have rec: "\<exists>k fin. snd (get_page_loop en d url n ?tr')
             = tr @ concat (replicate k [Sleep d, HttpGet url, Sleep d]) @ fin
         \<and> (fin = [] \<or> fin = [Sleep d, HttpGet url]) \<and> k + length fin div 2 \<le> Suc n"
    by (rule exI[of _ "Suc k"], rule exI[of _ fin]) (use h in auto)
  have stop0: "\<exists>k fin. tr = tr @ concat (replicate k [Sleep d, HttpGet url, Sleep d]) @ fin
         \<and> (fin = [] \<or> fin = [Sleep d, HttpGet url]) \<and> k + length fin div 2 \<le> Suc n"
    by (rule exI[of _ 0], rule exI[of _ "[]"]) simp
  have stop1: "\<exists>k fin. tr @ [Sleep d, HttpGet url] = tr @ concat (replicate k [Sleep d, HttpGet url, Sleep d]) @ fin
         \<and> (fin = [] \<or> fin = [Sleep d, HttpGet url]) \<and> k + length fin div 2 \<le> Suc n"
    by (rule exI[of _ 0], rule exI[of _ "[Sleep d, HttpGet url]"]) simp
  show ?case
  proof (cases "d < 0")
    case True
    then show ?thesis using stop0 by simp
  next
    case False
    show ?thesis
    proof (cases "http_get en (Suc (length tr)) url")
      case (Response status body)
      then show ?thesis using False rec stop1 by (simp add: Let_def)
    next
      case (RequestError m)
      then show ?thesis using False rec by (simp add: Let_def)
    next
      case Interrupted
      then show ?thesis using False stop1 by (simp add: Let_def)
    qed
  qed
qed

section \<open>The inner loop\<close>

lemma scrape_bacteria_effect:
  assumes "scrape_bacteria en cfg b w = (r, w1)"
  shows "sess w1 = sess w \<and> progress_file w1 = progress_file w \<and>
         (\<exists>evs. trace w1 = trace w @ evs \<and> scrapes evs = [b] \<and> saves evs = [] \<and> db_saves evs = [])"
proof -
  let ?tr0 = "trace w @ [ScrapeBacteria b]"
  let ?g = "get_page_loop en (delay cfg) (detail_url b) (nat 3) ?tr0"
  obtain k fin where
    h: "snd ?g = ?tr0 @ concat (replicate k [Sleep (delay cfg), HttpGet (detail_url b), Sleep (delay cfg)]) @ fin"
       "fin = [] \<or> fin = [Sleep (delay cfg), HttpGet (detail_url b)]"
    using get_page_loop_shape[of en "delay cfg" "detail_url b" "nat 3" ?tr0] by blast
  let ?evs = "ScrapeBacteria b # concat (replicate k [Sleep (delay cfg), HttpGet (detail_url b), Sleep (delay cfg)]) @ fin"
  have c: "scrapes (concat (replicate k [Sleep (delay cfg), HttpGet (detail_url b), Sleep (delay cfg)])) = []"
          "saves (concat (replicate k [Sleep (delay cfg), HttpGet (detail_url b), Sleep (delay cfg)])) = []"
          "db_saves (concat (replicate k [Sleep (delay cfg), HttpGet (detail_url b), Sleep (delay cfg)])) = []"
    by (induction k) simp_all
  have w1: "w1 = w\<lparr>trace := snd ?g\<rparr>"
    using assms
    by (auto simp: scrape_bacteria_def get_page_def emit_def Let_def
             split: prod.splits sum.splits option.splits if_splits)
  have t: "trace w1 = trace w @ ?evs" using w1 h(1) by simp
  have p: "scrapes ?evs = [b] \<and> saves ?evs = [] \<and> db_saves ?evs = []"
    using c h(2) by auto
  show ?thesis using w1 t p by (intro conjI exI[of _ ?evs]) simp_all
qed

lemma scrape_items_Cons_cases:
  obtains (interrupt) w1 where
      "scrape_bacteria en cfg b w = (Inl KeyboardInterrupt, w1)"
      "scrape_items en cfg (b # bs) (bd, ls, lf) w = (Some KeyboardInterrupt, (bd, ls, lf), w1)"
  | (failed) r w1 where
      "scrape_bacteria en cfg b w = (r, w1)"
      "scrape_items en cfg (b # bs) (bd, ls, lf) w = scrape_items en cfg bs (bd, ls, lf @ [b]) w1"
  | (ok) d w1 where
      "scrape_bacteria en cfg b w = (Inr (Some d), w1)" "d \<noteq> []"
      "scrape_items en cfg (b # bs) (bd, ls, lf) w
         = scrape_items en cfg bs (bd @ [d], ls @ [b], lf) w1"
proof -
  obtain r w1 where rw: "scrape_bacteria en cfg b w = (r, w1)" by (cases "scrape_bacteria en cfg b w")
  show thesis
  proof (cases r)
    case (Inl e)
    then show ?thesis using rw interrupt[of w1] failed[of r w1] by (cases e) simp_all
  next
    case (Inr opt)
    show ?thesis
    proof (cases opt)
      case None
      then show ?thesis using rw Inr failed[of r w1] by simp
    next
      case (Some d)
      then show ?thesis using rw Inr failed[of r w1] ok[of d w1] by (cases "d = []") simp_all
    qed
  qed
qed

lemma scrape_items_effect:
  assumes "scrape_items en cfg todo (bd0, ls0, lf0) w = (r, (bd, ls, lf), w')"
  shows "sess w' = sess w \<and> progress_file w' = progress_file w \<and>
         (\<exists>evs. trace w' = trace w @ evs \<and> saves evs = [] \<and> db_saves evs = [] \<and>
                set (scrapes evs) \<subseteq> set todo) \<and>
         set ls0 \<subseteq> set ls \<and> set lf0 \<subseteq> set lf \<and>
         set ls \<subseteq> set ls0 \<union> set todo \<and> set lf \<subseteq> set lf0 \<union> set todo \<and>
         (r = None \<or> r = Some KeyboardInterrupt) \<and>
         (r = None \<longrightarrow> set ls \<union> set lf = set ls0 \<union> set lf0 \<union> set todo) \<and>
         (length bd0 = length ls0 \<longrightarrow> length bd = length ls) \<and>
         (bd = [] \<longrightarrow> bd0 = [])"
  using assms
proof (induction todo arbitrary: bd0 ls0 lf0 w)
  case Nil
  then show ?case by auto
next
  case (Cons b bs)
  show ?case
  proof (cases rule: scrape_items_Cons_cases[of en cfg b w bs bd0 ls0 lf0])
    case (interrupt w1)
    from scrape_bacteria_effect[OF interrupt(1)] obtain evs where
      e: "sess w1 = sess w" "progress_file w1 = progress_file w" "trace w1 = trace w @ evs"
         "scrapes evs = [b]" "saves evs = []" "db_saves evs = []" by blast
    have eq: "r = Some KeyboardInterrupt" "bd = bd0" "ls = ls0" "lf = lf0" "w' = w1"
      using Cons.prems interrupt(2) by simp_all
    have "\<exists>evs. trace w' = trace w @ evs \<and> saves evs = [] \<and> db_saves evs = [] \<and>
                set (scrapes evs) \<subseteq> set (b # bs)"
      using e eq by (intro exI[of _ evs]) simp
    then show ?thesis using e eq by auto
  next
    case (failed r1 w1)
    from scrape_bacteria_effect[OF failed(1)] obtain evs where
      e: "sess w1 = sess w" "progress_file w1 = progress_file w" "trace w1 = trace w @ evs"
         "scrapes evs = [b]" "saves evs = []" "db_saves evs = []" by blast
    have rec: "scrape_items en cfg bs (bd0, ls0, lf0 @ [b]) w1 = (r, (bd, ls, lf), w')"
      using Cons.prems failed(2) by simp
    note ih = Cons.IH[OF rec]
    from ih obtain evs' where
      e': "trace w' = trace w1 @ evs'" "saves evs' = []" "db_saves evs' = []"
          "set (scrapes evs') \<subseteq> set bs" by blast
    have "\<exists>evs. trace w' = trace w @ evs \<and> saves evs = [] \<and> db_saves evs = [] \<and>
                set (scrapes evs) \<subseteq> set (b # bs)"
      using e e' by (intro exI[of _ "evs @ evs'"]) auto
    moreover have "sess w' = sess w" "progress_file w' = progress_file w" using ih e by simp_all
    moreover have "set ls0 \<subseteq> set ls" "set lf0 \<subseteq> set lf"
         "set ls \<subseteq> set ls0 \<union> set (b # bs)" "set lf \<subseteq> set lf0 \<union> set (b # bs)"
         "r = None \<or> r = Some KeyboardInterrupt"
         "r = None \<longrightarrow> set ls \<union> set lf = set ls0 \<union> set lf0 \<union> set (b # bs)"
         "length bd0 = length ls0 \<longrightarrow> length bd = length ls" "bd = [] \<longrightarrow> bd0 = []"
      using ih by auto
    ultimately show ?thesis by blast
  next
    case (ok d w1)
    from scrape_bacteria_effect[OF ok(1)] obtain evs where
      e: "sess w1 = sess w" "progress_file w1 = progress_file w" "trace w1 = trace w @ evs"
         "scrapes evs = [b]" "saves evs = []" "db_saves evs = []" by blast
    have rec: "scrape_items en cfg bs (bd0 @ [d], ls0 @ [b], lf0) w1 = (r, (bd, ls, lf), w')"
      using Cons.prems ok(3) by simp
    note ih = Cons.IH[OF rec]
    from ih obtain evs' where
      e': "trace w' = trace w1 @ evs'" "saves evs' = []" "db_saves evs' = []"
          "set (scrapes evs') \<subseteq> set bs" by blast
    have "\<exists>evs. trace w' = trace w @ evs \<and> saves evs = [] \<and> db_saves evs = [] \<and>
                set (scrapes evs) \<subseteq> set (b # bs)"
      using e e' by (intro exI[of _ "evs @ evs'"]) auto
    moreover have "sess w' = sess w" "progress_file w' = progress_file w" using ih e by simp_all
    moreover have "set ls0 \<subseteq> set ls" "set lf0 \<subseteq> set lf"
         "set ls \<subseteq> set ls0 \<union> set (b # bs)" "set lf \<subseteq> set lf0 \<union> set (b # bs)"
         "r = None \<or> r = Some KeyboardInterrupt"
         "r = None \<longrightarrow> set ls \<union> set lf = set ls0 \<union> set lf0 \<union> set (b # bs)"
         "length bd0 = length ls0 \<longrightarrow> length bd = length ls" "bd = [] \<longrightarrow> bd0 = []"
      using ih by auto
    ultimately show ?thesis by blast
  qed
qed

lemma scrape_items_disjoint:
  assumes "scrape_items en cfg todo (bd0, ls0, lf0) w = (r, (bd, ls, lf), w')"
    and "distinct todo" "set todo \<inter> (set ls0 \<union> set lf0) = {}" "set ls0 \<inter> set lf0 = {}"
  shows "set ls \<inter> set lf = {}"
  using assms
proof (induction todo arbitrary: bd0 ls0 lf0 w)
  case Nil
  then show ?case by simp
next
  case (Cons b bs)
  show ?case
  proof (cases rule: scrape_items_Cons_cases[of en cfg b w bs bd0 ls0 lf0])
    case (interrupt w1)
    then show ?thesis using Cons.prems by simp
  next
    case (failed r1 w1)
    have rec: "scrape_items en cfg bs (bd0, ls0, lf0 @ [b]) w1 = (r, (bd, ls, lf), w')"
      using Cons.prems failed(2) by simp
    show ?thesis by (rule Cons.IH[OF rec]) (use Cons.prems in auto)
  next
    case (ok d w1)
    have rec: "scrape_items en cfg bs (bd0 @ [d], ls0 @ [b], lf0) w1 = (r, (bd, ls, lf), w')"
      using Cons.prems ok(3) by simp
    show ?thesis by (rule Cons.IH[OF rec]) (use Cons.prems in auto)
  qed
qed

section \<open>The batch save and the checkpoint\<close>

lemma stage_batch_table:
  "table (snd (stage_batch en flt i ds s)) = table s
   \<and> log_stored (snd (stage_batch en flt i ds s)) = log_stored s
   \<and> next_pk (snd (stage_batch en flt i ds s)) = next_pk s"
  by (induction en flt i ds s rule: stage_batch.induct)
     (auto simp: update_row_def add_row_def split: option.splits)

lemma rollback_clean:
  "table (rollback s) = table s \<and> working (rollback s) = table s \<and> pending (rollback s) = []
   \<and> log (rollback s) = log_stored s \<and> log_stored (rollback s) = log_stored s
   \<and> next_pk (rollback s) = next_pk s"
  by (simp add: rollback_def)

lemma save_batch_to_db_effect:
  assumes "save_batch_to_db en bd w = (r, w')"
  shows "trace w' = trace w @ [SaveBatchToDb bd] \<and> progress_file w' = progress_file w \<and>
         (r \<noteq> None \<longrightarrow> table (sess w') = table (sess w) \<and> working (sess w') = table (sess w)
                         \<and> pending (sess w') = [] \<and> next_pk (sess w') = next_pk (sess w))"
proof -
  let ?flt = "db_fault en (length (trace w))"
  obtain m s where st: "stage_batch en ?flt 0 bd (sess w) = (m, s)"
    by (cases "stage_batch en ?flt 0 bd (sess w)")
  have t: "table s = table (sess w)" "next_pk s = next_pk (sess w)"
    using stage_batch_table[of en ?flt 0 bd "sess w"] st by simp_all
  show ?thesis
    using assms st t
    by (auto simp: save_batch_to_db_def Let_def emit_def rollback_clean
             split: option.splits)
qed

lemma save_progress_effect:
  "trace (save_progress en p w) = trace w @ [SaveProgress p] \<and> sess (save_progress en p w) = sess w
   \<and> (write_fault en (length (trace w)) = Written \<longrightarrow> progress_file (save_progress en p w) = Json p)"
  by (simp add: save_progress_def emit_def)

lemma commit_session_effect:
  assumes "commit_session en w = (r, w')"
  shows "trace w' = trace w @ [Commit] \<and> progress_file w' = progress_file w
         \<and> (r = None \<longrightarrow> commit_fault en (length (trace w)) = None)
         \<and> (commit_fault en (length (trace w)) = None \<longrightarrow> r = None)
         \<and> log (sess w') = log (sess w)"
  using assms
  by (auto simp: commit_session_def emit_def commit_def Let_def split: option.splits)

lemma set_log_effect:
  "trace (set_log f w) = trace w \<and> progress_file (set_log f w) = progress_file w
   \<and> log (sess (set_log f w)) = f (log (sess w)) \<and> table (sess (set_log f w)) = table (sess w)"
  by (simp add: set_log_def)

text \<open>What the end of a batch does to the two sets, the checkpoint and the trace.\<close>

lemma finish_batch_effect:
  assumes "finish_batch en pos (bd, ls, lf) st w1 = (r, st')"
  shows "st_progress st' = \<lparr>last_processed_idx = pos, successful_ids = st_successful st',
                              failed_ids = st_failed st'\<rparr>"
    and "st_successful st \<subseteq> st_successful st'" and "st_failed st \<subseteq> st_failed st'"
    and "st_successful st' \<subseteq> st_successful st \<union> set ls"
    and "st_failed st' \<subseteq> st_failed st \<union> set ls \<union> set lf"
    and "set lf \<subseteq> st_failed st'"
    and "bd \<noteq> [] \<Longrightarrow> set ls \<subseteq> st_successful st' \<union> st_failed st'"
    and "st_successful st' = st_successful st \<or> st_failed st' = st_failed st \<union> set lf"
    and "\<exists>evs. trace (st_world st') = trace w1 @ evs \<and> saves evs = [st_progress st']
               \<and> scrapes evs = [] \<and> requests evs = []"
    and "r = None \<or> (\<exists>m. r = Some (Exception m))"
proof -
  define S where "S = st_successful st"
  define F where "F = st_failed st"
  obtain rd wd where d: "save_batch_to_db en bd w1 = (rd, wd)" by (cases "save_batch_to_db en bd w1")
  define S1 where "S1 = (if bd \<noteq> [] \<and> rd = None then S \<union> set ls else S)"
  define F1 where "F1 = (if bd \<noteq> [] \<and> rd \<noteq> None then F \<union> set ls else F)"
  define w2 where "w2 = (if bd \<noteq> [] then wd else w1)"
  let ?p = "\<lparr>last_processed_idx = pos, successful_ids = S1, failed_ids = F1 \<union> set lf\<rparr>"
  let ?w3 = "save_progress en ?p w2"
  let ?w4 = "set_log (\<lambda>l. l\<lparr>successful_scrapes := Some (card S1),
                             failed_scrapes := Some (card (F1 \<union> set lf))\<rparr>) ?w3"
  obtain rc w5 where cm: "commit_session en ?w4 = (rc, w5)" by (cases "commit_session en ?w4")
  have "finish_batch en pos (bd, ls, lf) st w1 =
          (map_option Exception rc,
           \<lparr>st_progress = ?p, st_successful = S1, st_failed = F1 \<union> set lf, st_world = w5\<rparr>)"
  proof (cases "bd = []")
    case True
    then have "S1 = S" "F1 = F" "w2 = w1" by (simp_all add: S1_def F1_def w2_def)
    then show ?thesis using True cm by (simp add: finish_batch_def S_def F_def Let_def)
  next
    case False
    show ?thesis
    proof (cases rd)
      case None
      then have "S1 = S \<union> set ls" "F1 = F" "w2 = wd" using False by (simp_all add: S1_def F1_def w2_def)
      then show ?thesis using False None d cm by (simp add: finish_batch_def S_def F_def Let_def)
    next
      case (Some m)
      then have "S1 = S" "F1 = F \<union> set ls" "w2 = wd" using False by (simp_all add: S1_def F1_def w2_def)
      then show ?thesis using False Some d cm by (simp add: finish_batch_def S_def F_def Let_def)
    qed
  qed
  then have res: "r = map_option Exception rc"
            "st' = \<lparr>st_progress = ?p, st_successful = S1, st_failed = F1 \<union> set lf, st_world = w5\<rparr>"
    using assms by simp_all
  have sets: "S1 = st_successful st \<union> set ls \<and> F1 = st_failed st \<and> bd \<noteq> []
              \<or> S1 = st_successful st \<and> F1 = st_failed st \<union> set ls \<and> bd \<noteq> []
              \<or> S1 = st_successful st \<and> F1 = st_failed st \<and> bd = []"
    by (auto simp: S1_def F1_def S_def F_def)
  have tr2: "\<exists>evs. trace w2 = trace w1 @ evs \<and> saves evs = [] \<and> scrapes evs = [] \<and> requests evs = []"
  proof (cases "bd = []")
    case True
    then have "w2 = w1" by (simp add: w2_def)
    then show ?thesis by simp
  next
    case False
    then have "w2 = wd" by (simp add: w2_def)
    then show ?thesis using save_batch_to_db_effect[OF d] by simp
  qed
  then obtain evs where e: "trace w2 = trace w1 @ evs" "saves evs = []" "scrapes evs = []"
    "requests evs = []" by blast
  have "trace w5 = trace w1 @ (evs @ [SaveProgress ?p, Commit])"
    using commit_session_effect[OF cm] set_log_effect save_progress_effect e(1) by simp
  then have tr: "\<exists>evs. trace (st_world st') = trace w1 @ evs \<and> saves evs = [st_progress st']
               \<and> scrapes evs = [] \<and> requests evs = []"
    using e res by (intro exI[of _ "evs @ [SaveProgress ?p, Commit]"]) simp
  show "st_progress st' = \<lparr>last_processed_idx = pos, successful_ids = st_successful st',
                              failed_ids = st_failed st'\<rparr>"
    using res by simp
  show "st_successful st \<subseteq> st_successful st'" using res sets by auto
  show "st_failed st \<subseteq> st_failed st'" using res sets by auto
  show "st_successful st' \<subseteq> st_successful st \<union> set ls" using res sets by auto
  show "st_failed st' \<subseteq> st_failed st \<union> set ls \<union> set lf" using res sets by auto
  show "set lf \<subseteq> st_failed st'" using res by simp
  show "bd \<noteq> [] \<Longrightarrow> set ls \<subseteq> st_successful st' \<union> st_failed st'" using res sets by auto
  show "st_successful st' = st_successful st \<or> st_failed st' = st_failed st \<union> set lf"
    using res sets by auto
  show "\<exists>evs. trace (st_world st') = trace w1 @ evs \<and> saves evs = [st_progress st']
               \<and> scrapes evs = [] \<and> requests evs = []" by (rule tr)
  show "r = None \<or> (\<exists>m. r = Some (Exception m))" using res by (cases rc) simp_all
qed

section \<open>One iteration of the batch loop\<close>

lemma py_slice_distinct: "distinct xs \<Longrightarrow> distinct (py_slice xs a b)"
  by (simp add: py_slice_def Let_def)

lemma batch_ids_distinct: "distinct ids \<Longrightarrow> distinct (batch_ids ids B k)"
  by (simp add: batch_ids_def py_slice_distinct)

lemma batch_to_process_set:
  "set (batch_to_process S F bids) = set bids - (S \<union> F)"
  by (auto simp: batch_to_process_def)

lemma batch_to_process_empty:
  "batch_to_process S F bids = [] \<longleftrightarrow> set bids \<subseteq> S \<union> F"
  by (auto simp: batch_to_process_def filter_empty_conv)

text \<open>The three ways one iteration of the batch loop can go.\<close>

lemma process_batch_cases:
  assumes "process_batch en cfg ids k st = (r, st')"
  obtains (skipped)
      "batch_to_process (st_successful st) (st_failed st) (batch_ids ids (batch_size cfg) k) = []"
      "r = None" "st' = st"
  | (interrupted) acc w1 where
      "batch_to_process (st_successful st) (st_failed st) (batch_ids ids (batch_size cfg) k) \<noteq> []"
      "scrape_items en cfg
         (batch_to_process (st_successful st) (st_failed st) (batch_ids ids (batch_size cfg) k))
         ([], [], []) (st_world st) = (Some KeyboardInterrupt, acc, w1)"
      "r = Some KeyboardInterrupt" "st' = st\<lparr>st_world := w1\<rparr>"
  | (finished) bd ls lf w1 where
      "batch_to_process (st_successful st) (st_failed st) (batch_ids ids (batch_size cfg) k) \<noteq> []"
      "scrape_items en cfg
         (batch_to_process (st_successful st) (st_failed st) (batch_ids ids (batch_size cfg) k))
         ([], [], []) (st_world st) = (None, (bd, ls, lf), w1)"
      "finish_batch en (batch_end (int (length ids)) (batch_size cfg) k - 1) (bd, ls, lf) st w1
         = (r, st')"
proof -
  let ?todo = "batch_to_process (st_successful st) (st_failed st) (batch_ids ids (batch_size cfg) k)"
  show thesis
  proof (cases "?todo = []")
    case True
    have "r = None" "st' = st" using assms True by (simp_all add: process_batch_def Let_def)
    then show ?thesis using True skipped by blast
  next
    case False
    obtain r1 rest where s1: "scrape_items en cfg ?todo ([], [], []) (st_world st) = (r1, rest)"
      by (cases "scrape_items en cfg ?todo ([], [], []) (st_world st)")
    obtain acc w1 where s2: "rest = (acc, w1)" by (cases rest)
    obtain bd ls lf where s3: "acc = (bd, ls, lf)" by (cases acc)
    have si: "scrape_items en cfg ?todo ([], [], []) (st_world st) = (r1, (bd, ls, lf), w1)"
      using s1 s2 s3 by simp
    from scrape_items_effect[OF si] have r1: "r1 = None \<or> r1 = Some KeyboardInterrupt" by blast
    show ?thesis
    proof (cases r1)
      case None
      then have "finish_batch en (batch_end (int (length ids)) (batch_size cfg) k - 1) (bd, ls, lf) st w1
         = (r, st')"
        using assms False si by (simp add: process_batch_def Let_def)
      then show ?thesis using False si None finished[of bd ls lf w1] by blast
    next
      case (Some e)
      then have "e = KeyboardInterrupt" using r1 by simp
      then have e: "r1 = Some KeyboardInterrupt" using Some by simp
      then have "r = Some KeyboardInterrupt" "st' = st\<lparr>st_world := w1\<rparr>"
        using assms False si by (simp_all add: process_batch_def Let_def)
      then show ?thesis using False si e interrupted[of "(bd, ls, lf)" w1] by blast
    qed
  qed
qed

lemma process_batch_effect:
  assumes pb: "process_batch en cfg ids k st = (r, st')"
  defines "bids \<equiv> batch_ids ids (batch_size cfg) k"
  defines "todo \<equiv> batch_to_process (st_successful st) (st_failed st) bids"
  shows "st_successful st \<subseteq> st_successful st'" and "st_failed st \<subseteq> st_failed st'"
    and "st_successful st' \<subseteq> st_successful st \<union> set todo"
    and "st_failed st' \<subseteq> st_failed st \<union> set todo"
    and "r \<noteq> Some KeyboardInterrupt \<Longrightarrow> set bids \<subseteq> st_successful st' \<union> st_failed st'"
    and "st_successful st \<inter> st_failed st = {} \<Longrightarrow> distinct bids \<Longrightarrow>
           st_successful st' \<inter> st_failed st' = {}"
    and "\<exists>evs. trace (st_world st') = trace (st_world st) @ evs \<and> set (scrapes evs) \<subseteq> set todo
           \<and> (todo = [] \<longrightarrow> evs = [])
           \<and> (saves evs = [] \<and> st_progress st' = st_progress st
                \<and> st_successful st' = st_successful st \<and> st_failed st' = st_failed st
              \<or> saves evs = [st_progress st']
                \<and> st_progress st' =
                    \<lparr>last_processed_idx = batch_end (int (length ids)) (batch_size cfg) k - 1,
                     successful_ids = st_successful st', failed_ids = st_failed st'\<rparr>
                \<and> set bids \<subseteq> st_successful st' \<union> st_failed st')"
proof -
  have ts: "set todo = set bids - (st_successful st \<union> st_failed st)"
    by (simp add: todo_def batch_to_process_set)
  have all: "st_successful st \<subseteq> st_successful st' \<and> st_failed st \<subseteq> st_failed st'
    \<and> st_successful st' \<subseteq> st_successful st \<union> set todo
    \<and> st_failed st' \<subseteq> st_failed st \<union> set todo
    \<and> (r \<noteq> Some KeyboardInterrupt \<longrightarrow> set bids \<subseteq> st_successful st' \<union> st_failed st')
    \<and> (st_successful st \<inter> st_failed st = {} \<longrightarrow> distinct bids \<longrightarrow>
           st_successful st' \<inter> st_failed st' = {})
    \<and> (\<exists>evs. trace (st_world st') = trace (st_world st) @ evs \<and> set (scrapes evs) \<subseteq> set todo
           \<and> (todo = [] \<longrightarrow> evs = [])
           \<and> (saves evs = [] \<and> st_progress st' = st_progress st
                \<and> st_successful st' = st_successful st \<and> st_failed st' = st_failed st
              \<or> saves evs = [st_progress st']
                \<and> st_progress st' =
                    \<lparr>last_processed_idx = batch_end (int (length ids)) (batch_size cfg) k - 1,
                     successful_ids = st_successful st', failed_ids = st_failed st'\<rparr>
                \<and> set bids \<subseteq> st_successful st' \<union> st_failed st'))"
    using pb
  proof (cases rule: process_batch_cases)
    case skipped
    then have "todo = []" by (simp add: todo_def bids_def)
    moreover then have "set bids \<subseteq> st_successful st \<union> st_failed st"
      using ts by auto
    ultimately show ?thesis using skipped by auto
  next
    case (interrupted acc w1)
    obtain bd ls lf where acc: "acc = (bd, ls, lf)" by (cases acc)
    have si: "scrape_items en cfg todo ([], [], []) (st_world st) = (Some KeyboardInterrupt, (bd, ls, lf), w1)"
      using interrupted(2) acc by (simp add: todo_def bids_def)
    from scrape_items_effect[OF si] obtain evs where
      e: "trace w1 = trace (st_world st) @ evs" "saves evs = []" "set (scrapes evs) \<subseteq> set todo"
      by blast
    have ne: "todo \<noteq> []" using interrupted(1) by (simp add: todo_def bids_def)
    have "\<exists>evs. trace (st_world st') = trace (st_world st) @ evs \<and> set (scrapes evs) \<subseteq> set todo
           \<and> (todo = [] \<longrightarrow> evs = [])
           \<and> (saves evs = [] \<and> st_progress st' = st_progress st
                \<and> st_successful st' = st_successful st \<and> st_failed st' = st_failed st
              \<or> saves evs = [st_progress st']
                \<and> st_progress st' =
                    \<lparr>last_processed_idx = batch_end (int (length ids)) (batch_size cfg) k - 1,
                     successful_ids = st_successful st', failed_ids = st_failed st'\<rparr>
                \<and> set bids \<subseteq> st_successful st' \<union> st_failed st')"
      using e ne interrupted(4) by (intro exI[of _ evs]) simp
    then show ?thesis using interrupted(3,4) by auto
  next
    case (finished bd ls lf w1)
    have si: "scrape_items en cfg todo ([], [], []) (st_world st) = (None, (bd, ls, lf), w1)"
      using finished(2) by (simp add: todo_def bids_def)
    have ne: "todo \<noteq> []" using finished(1) by (simp add: todo_def bids_def)
    from scrape_items_effect[OF si] obtain evs where
      e: "trace w1 = trace (st_world st) @ evs" "saves evs = []" "set (scrapes evs) \<subseteq> set todo"
      and l: "set ls \<union> set lf = set todo" "length bd = length ls"
      by auto
    have dj: "distinct bids \<Longrightarrow> set ls \<inter> set lf = {}"
    proof -
      assume "distinct bids"
      then have "distinct todo" by (simp add: todo_def batch_to_process_def)
      then show ?thesis using scrape_items_disjoint[OF si] by simp
    qed
    note fb = finish_batch_effect[OF finished(3)]
    from fb(9) obtain evs' where
      e': "trace (st_world st') = trace w1 @ evs'" "saves evs' = [st_progress st']"
          "scrapes evs' = []" by blast
    have ls_in: "set ls \<subseteq> st_successful st' \<union> st_failed st'"
    proof (cases "bd = []")
      case True
      then show ?thesis using l(2) by simp
    next
      case False
      then show ?thesis by (rule fb(7))
    qed
    have cov: "set bids \<subseteq> st_successful st' \<union> st_failed st'"
      using ls_in fb(6) l(1) ts fb(2,3) by blast
    have "\<exists>evs. trace (st_world st') = trace (st_world st) @ evs \<and> set (scrapes evs) \<subseteq> set todo
           \<and> (todo = [] \<longrightarrow> evs = [])
           \<and> (saves evs = [] \<and> st_progress st' = st_progress st
                \<and> st_successful st' = st_successful st \<and> st_failed st' = st_failed st
              \<or> saves evs = [st_progress st']
                \<and> st_progress st' =
                    \<lparr>last_processed_idx = batch_end (int (length ids)) (batch_size cfg) k - 1,
                     successful_ids = st_successful st', failed_ids = st_failed st'\<rparr>
                \<and> set bids \<subseteq> st_successful st' \<union> st_failed st')"
      using e e' ne cov fb(1) by (intro exI[of _ "evs @ evs'"]) simp
    moreover have "st_successful st' \<subseteq> st_successful st \<union> set todo"
      using fb(4) l(1) by blast
    moreover have "st_failed st' \<subseteq> st_failed st \<union> set todo"
      using fb(5) l(1) by blast
    moreover have "st_successful st \<inter> st_failed st = {} \<longrightarrow> distinct bids \<longrightarrow>
           st_successful st' \<inter> st_failed st' = {}"
    proof (intro impI)
      assume a: "st_successful st \<inter> st_failed st = {}" "distinct bids"
      have d1: "set ls \<inter> set lf = {}" using dj a(2) .
      have d2: "(set ls \<union> set lf) \<inter> (st_successful st \<union> st_failed st) = {}"
        using l(1) ts by blast
      show "st_successful st' \<inter> st_failed st' = {}"
        using fb(8) fb(4) fb(5) a(1) d1 d2 by blast
    qed
    ultimately show ?thesis using fb(2,3) cov by blast
  qed
  show "st_successful st \<subseteq> st_successful st'" "st_failed st \<subseteq> st_failed st'"
    "st_successful st' \<subseteq> st_successful st \<union> set todo"
    "st_failed st' \<subseteq> st_failed st \<union> set todo"
    "r \<noteq> Some KeyboardInterrupt \<Longrightarrow> set bids \<subseteq> st_successful st' \<union> st_failed st'"
    "st_successful st \<inter> st_failed st = {} \<Longrightarrow> distinct bids \<Longrightarrow>
           st_successful st' \<inter> st_failed st' = {}"
    "\<exists>evs. trace (st_world st') = trace (st_world st) @ evs \<and> set (scrapes evs) \<subseteq> set todo
           \<and> (todo = [] \<longrightarrow> evs = [])
           \<and> (saves evs = [] \<and> st_progress st' = st_progress st
                \<and> st_successful st' = st_successful st \<and> st_failed st' = st_failed st
              \<or> saves evs = [st_progress st']
                \<and> st_progress st' =
                    \<lparr>last_processed_idx = batch_end (int (length ids)) (batch_size cfg) k - 1,
                     successful_ids = st_successful st', failed_ids = st_failed st'\<rparr>
                \<and> set bids \<subseteq> st_successful st' \<union> st_failed st')"
    using all by blast+
qed

section \<open>The batch loop\<close>

lemma batch_loop_Cons_cases:
  assumes "batch_loop en cfg ids (k # ks) st = (r, st')"
  obtains (stopped) e where "process_batch en cfg ids k st = (Some e, st')" "r = Some e"
  | (continued) st1 where "process_batch en cfg ids k st = (None, st1)"
      "batch_loop en cfg ids ks st1 = (r, st')"
proof -
  obtain r1 st1 where p: "process_batch en cfg ids k st = (r1, st1)"
    by (cases "process_batch en cfg ids k st")
  show thesis
  proof (cases r1)
    case None
    then have "batch_loop en cfg ids ks st1 = (r, st')" using assms p by simp
    then show ?thesis using continued p None by blast
  next
    case (Some e)
    then have "r = Some e" "st' = st1" using assms p by simp_all
    then show ?thesis using stopped p Some by blast
  qed
qed

text \<open>The loop only adds to the two sets, scrapes nothing already in them, and leaves in
  \<^verbatim>\<open>progress\<close> the last snapshot it saved.\<close>

lemma batch_loop_effect:
  assumes "batch_loop en cfg ids ks st = (r, st')"
  shows "st_successful st \<subseteq> st_successful st' \<and> st_failed st \<subseteq> st_failed st' \<and>
    (\<exists>evs. trace (st_world st') = trace (st_world st) @ evs
       \<and> set (scrapes evs) \<inter> (st_successful st \<union> st_failed st) = {}
       \<and> (saves evs = [] \<longrightarrow> st_progress st' = st_progress st
            \<and> st_successful st' = st_successful st \<and> st_failed st' = st_failed st)
       \<and> (saves evs \<noteq> [] \<longrightarrow> st_progress st' = last (saves evs)
            \<and> successful_ids (st_progress st') = st_successful st'
            \<and> failed_ids (st_progress st') = st_failed st')
       \<and> (\<forall>p \<in> set (saves evs). \<exists>k \<in> set ks.
             last_processed_idx p = batch_end (int (length ids)) (batch_size cfg) k - 1))"
  using assms
proof (induction ks arbitrary: st)
  case Nil
  then have "st' = st" by simp
  then show ?case by simp
next
  case (Cons k ks)
  have step: "\<And>r1 st1. process_batch en cfg ids k st = (r1, st1) \<Longrightarrow>
     st_successful st \<subseteq> st_successful st1 \<and> st_failed st \<subseteq> st_failed st1 \<and>
     (\<exists>evs. trace (st_world st1) = trace (st_world st) @ evs
       \<and> set (scrapes evs) \<inter> (st_successful st \<union> st_failed st) = {}
       \<and> (saves evs = [] \<and> st_progress st1 = st_progress st
            \<and> st_successful st1 = st_successful st \<and> st_failed st1 = st_failed st
          \<or> saves evs = [st_progress st1]
            \<and> successful_ids (st_progress st1) = st_successful st1
            \<and> failed_ids (st_progress st1) = st_failed st1
            \<and> last_processed_idx (st_progress st1)
                = batch_end (int (length ids)) (batch_size cfg) k - 1))"
  proof -
    fix r1 st1 assume pb: "process_batch en cfg ids k st = (r1, st1)"
    note e = process_batch_effect[OF pb]
    from e(7) obtain evs where
      ev: "trace (st_world st1) = trace (st_world st) @ evs"
          "set (scrapes evs) \<subseteq> set (batch_to_process (st_successful st) (st_failed st)
                                    (batch_ids ids (batch_size cfg) k))"
          "saves evs = [] \<and> st_progress st1 = st_progress st
                \<and> st_successful st1 = st_successful st \<and> st_failed st1 = st_failed st
           \<or> saves evs = [st_progress st1]
                \<and> st_progress st1 =
                    \<lparr>last_processed_idx = batch_end (int (length ids)) (batch_size cfg) k - 1,
                     successful_ids = st_successful st1, failed_ids = st_failed st1\<rparr>
                \<and> set (batch_ids ids (batch_size cfg) k) \<subseteq> st_successful st1 \<union> st_failed st1"
      by blast
    have dj: "set (scrapes evs) \<inter> (st_successful st \<union> st_failed st) = {}"
      using ev(2) by (auto simp: batch_to_process_set)
    have pr: "saves evs = [] \<and> st_progress st1 = st_progress st
            \<and> st_successful st1 = st_successful st \<and> st_failed st1 = st_failed st
          \<or> saves evs = [st_progress st1]
            \<and> successful_ids (st_progress st1) = st_successful st1
            \<and> failed_ids (st_progress st1) = st_failed st1
            \<and> last_processed_idx (st_progress st1)
                = batch_end (int (length ids)) (batch_size cfg) k - 1"
      using ev(3) by (elim disjE) simp_all
    show "st_successful st \<subseteq> st_successful st1 \<and> st_failed st \<subseteq> st_failed st1 \<and>
     (\<exists>evs. trace (st_world st1) = trace (st_world st) @ evs
       \<and> set (scrapes evs) \<inter> (st_successful st \<union> st_failed st) = {}
       \<and> (saves evs = [] \<and> st_progress st1 = st_progress st
            \<and> st_successful st1 = st_successful st \<and> st_failed st1 = st_failed st
          \<or> saves evs = [st_progress st1]
            \<and> successful_ids (st_progress st1) = st_successful st1
            \<and> failed_ids (st_progress st1) = st_failed st1
            \<and> last_processed_idx (st_progress st1)
                = batch_end (int (length ids)) (batch_size cfg) k - 1))"
      using e(1,2) ev(1) dj pr by blast
  qed
  from Cons.prems show ?case
  proof (cases rule: batch_loop_Cons_cases)
    case (stopped e)
    from step[OF stopped(1)] obtain evs where
      m: "st_successful st \<subseteq> st_successful st'" "st_failed st \<subseteq> st_failed st'"
      and ev: "trace (st_world st') = trace (st_world st) @ evs"
        "set (scrapes evs) \<inter> (st_successful st \<union> st_failed st) = {}"
        "saves evs = [] \<and> st_progress st' = st_progress st
            \<and> st_successful st' = st_successful st \<and> st_failed st' = st_failed st
          \<or> saves evs = [st_progress st']
            \<and> successful_ids (st_progress st') = st_successful st'
            \<and> failed_ids (st_progress st') = st_failed st'
            \<and> last_processed_idx (st_progress st')
                = batch_end (int (length ids)) (batch_size cfg) k - 1"
      by blast
    have "trace (st_world st') = trace (st_world st) @ evs
       \<and> set (scrapes evs) \<inter> (st_successful st \<union> st_failed st) = {}
       \<and> (saves evs = [] \<longrightarrow> st_progress st' = st_progress st
            \<and> st_successful st' = st_successful st \<and> st_failed st' = st_failed st)
       \<and> (saves evs \<noteq> [] \<longrightarrow> st_progress st' = last (saves evs)
            \<and> successful_ids (st_progress st') = st_successful st'
            \<and> failed_ids (st_progress st') = st_failed st')
       \<and> (\<forall>p \<in> set (saves evs). \<exists>k' \<in> set (k # ks).
             last_processed_idx p = batch_end (int (length ids)) (batch_size cfg) k' - 1)"
      using ev by (elim disjE) auto
    then show ?thesis using m by blast
  next
    case (continued st1)
    from step[OF continued(1)] obtain evs where
      m: "st_successful st \<subseteq> st_successful st1" "st_failed st \<subseteq> st_failed st1"
      and ev: "trace (st_world st1) = trace (st_world st) @ evs"
        "set (scrapes evs) \<inter> (st_successful st \<union> st_failed st) = {}"
        "saves evs = [] \<and> st_progress st1 = st_progress st
            \<and> st_successful st1 = st_successful st \<and> st_failed st1 = st_failed st
          \<or> saves evs = [st_progress st1]
            \<and> successful_ids (st_progress st1) = st_successful st1
            \<and> failed_ids (st_progress st1) = st_failed st1
            \<and> last_processed_idx (st_progress st1)
                = batch_end (int (length ids)) (batch_size cfg) k - 1"
      by blast
    from Cons.IH[OF continued(2)] obtain evs' where
      m': "st_successful st1 \<subseteq> st_successful st'" "st_failed st1 \<subseteq> st_failed st'"
      and ev': "trace (st_world st') = trace (st_world st1) @ evs'"
        "set (scrapes evs') \<inter> (st_successful st1 \<union> st_failed st1) = {}"
        "saves evs' = [] \<longrightarrow> st_progress st' = st_progress st1
            \<and> st_successful st' = st_successful st1 \<and> st_failed st' = st_failed st1"
        "saves evs' \<noteq> [] \<longrightarrow> st_progress st' = last (saves evs')
            \<and> successful_ids (st_progress st') = st_successful st'
            \<and> failed_ids (st_progress st') = st_failed st'"
        "\<forall>p \<in> set (saves evs'). \<exists>k \<in> set ks.
             last_processed_idx p = batch_end (int (length ids)) (batch_size cfg) k - 1"
      by blast
    have t: "trace (st_world st') = trace (st_world st) @ (evs @ evs')" using ev(1) ev'(1) by simp
    have s: "set (scrapes (evs @ evs')) \<inter> (st_successful st \<union> st_failed st) = {}"
      using ev(2) ev'(2) m by auto
    have a: "saves (evs @ evs') = [] \<longrightarrow> st_progress st' = st_progress st
            \<and> st_successful st' = st_successful st \<and> st_failed st' = st_failed st"
      using ev(3) ev'(3) by auto
    have b: "saves (evs @ evs') \<noteq> [] \<longrightarrow> st_progress st' = last (saves (evs @ evs'))
            \<and> successful_ids (st_progress st') = st_successful st'
            \<and> failed_ids (st_progress st') = st_failed st'"
    proof (cases "saves evs' = []")
      case True
      then show ?thesis using ev(3) ev'(3) by auto
    next
      case False
      then have "last (saves (evs @ evs')) = last (saves evs')" by simp
      then show ?thesis using ev'(4) False by metis
    qed
    have c: "\<forall>p \<in> set (saves (evs @ evs')). \<exists>k' \<in> set (k # ks).
             last_processed_idx p = batch_end (int (length ids)) (batch_size cfg) k' - 1"
      using ev(3) ev'(5) by auto
    have "\<exists>evs. trace (st_world st') = trace (st_world st) @ evs
       \<and> set (scrapes evs) \<inter> (st_successful st \<union> st_failed st) = {}
       \<and> (saves evs = [] \<longrightarrow> st_progress st' = st_progress st
            \<and> st_successful st' = st_successful st \<and> st_failed st' = st_failed st)
       \<and> (saves evs \<noteq> [] \<longrightarrow> st_progress st' = last (saves evs)
            \<and> successful_ids (st_progress st') = st_successful st'
            \<and> failed_ids (st_progress st') = st_failed st')
       \<and> (\<forall>p \<in> set (saves evs). \<exists>k' \<in> set (k # ks).
             last_processed_idx p = batch_end (int (length ids)) (batch_size cfg) k' - 1)"
      using t s a b c by (intro exI[of _ "evs @ evs'"] conjI)
    then show ?thesis using m m' by blast
  qed
qed

text \<open>A loop that ends without an exception has accounted for every batch it visited.\<close>

lemma batch_loop_covers:
  assumes "batch_loop en cfg ids ks st = (None, st')"
  shows "\<forall>k \<in> set ks. set (batch_ids ids (batch_size cfg) k) \<subseteq> st_successful st' \<union> st_failed st'"
  using assms
proof (induction ks arbitrary: st)
  case Nil
  then show ?case by simp
next
  case (Cons k ks)
  from Cons.prems show ?case
  proof (cases rule: batch_loop_Cons_cases)
    case (stopped e)
    then show ?thesis by simp
  next
    case (continued st1)
    have "set (batch_ids ids (batch_size cfg) k) \<subseteq> st_successful st1 \<union> st_failed st1"
      using process_batch_effect(5)[OF continued(1)] by simp
    moreover have "st_successful st1 \<subseteq> st_successful st'" "st_failed st1 \<subseteq> st_failed st'"
      using batch_loop_effect[OF continued(2)] by blast+
    ultimately show ?thesis using Cons.IH[OF continued(2)] by auto
  qed
qed

text \<open>A loop over batches that are already accounted for does nothing.\<close>

lemma batch_loop_idle:
  assumes "\<forall>k \<in> set ks. set (batch_ids ids (batch_size cfg) k) \<subseteq> st_successful st \<union> st_failed st"
  shows "batch_loop en cfg ids ks st = (None, st)"
  using assms
proof (induction ks)
  case Nil
  show ?case by simp
next
  case (Cons k ks)
  have "batch_to_process (st_successful st) (st_failed st) (batch_ids ids (batch_size cfg) k) = []"
    using Cons.prems by (simp add: batch_to_process_empty)
  then have "process_batch en cfg ids k st = (None, st)"
    by (simp add: process_batch_def Let_def)
  then show ?case using Cons by simp
qed

section \<open>Cursor order and the invariant along the loop\<close>

lemma batch_end_mono:
  assumes "0 < B" "k \<le> k'"
  shows "batch_end L B k \<le> batch_end L B k'"
proof -
  have "k * B \<le> k' * B" using assms by (simp add: mult_right_mono)
  then show ?thesis by (simp add: batch_end_def batch_start_def min_def)
qed

text \<open>Over increasing batch indices the cursors of the checkpoints do not decrease.\<close>

lemma batch_loop_sorted:
  assumes "0 < batch_size cfg" "sorted ks" "batch_loop en cfg ids ks st = (r, st')"
    and "trace (st_world st') = trace (st_world st) @ evs"
  shows "sorted (map last_processed_idx (saves evs))"
  using assms(2-)
proof (induction ks arbitrary: st evs)
  case Nil
  then have "st' = st" by simp
  then have "evs = []" using Nil.prems(3) by simp
  then show ?case by simp
next
  case (Cons k ks)
  have sk: "sorted ks" "\<forall>k' \<in> set ks. k \<le> k'" using Cons.prems(1) by simp_all
  from Cons.prems(2) show ?case
  proof (cases rule: batch_loop_Cons_cases)
    case (stopped e)
    from process_batch_effect(7)[OF stopped(1)] obtain evs1 where
      "trace (st_world st') = trace (st_world st) @ evs1"
      "saves evs1 = [] \<or> saves evs1 = [st_progress st']" by blast
    then have "saves evs = [] \<or> saves evs = [st_progress st']" using Cons.prems(3) by auto
    then show ?thesis by auto
  next
    case (continued st1)
    from process_batch_effect(7)[OF continued(1)] obtain evs1 where
      e1: "trace (st_world st1) = trace (st_world st) @ evs1"
      "saves evs1 = [] \<or> saves evs1 = [st_progress st1]
         \<and> last_processed_idx (st_progress st1)
            = batch_end (int (length ids)) (batch_size cfg) k - 1" by auto
    from batch_loop_effect[OF continued(2)] obtain evs2 where
      e2: "trace (st_world st') = trace (st_world st1) @ evs2"
      "\<forall>p \<in> set (saves evs2). \<exists>k' \<in> set ks.
             last_processed_idx p = batch_end (int (length ids)) (batch_size cfg) k' - 1"
      by blast
    have s2: "sorted (map last_processed_idx (saves evs2))"
      by (rule Cons.IH[OF sk(1) continued(2) e2(1)])
    have ev: "evs = evs1 @ evs2" using e1(1) e2(1) Cons.prems(3) by simp
    have ge: "\<forall>p \<in> set (saves evs2).
        batch_end (int (length ids)) (batch_size cfg) k - 1 \<le> last_processed_idx p"
    proof
      fix p assume "p \<in> set (saves evs2)"
      then obtain k' where k': "k' \<in> set ks"
        "last_processed_idx p = batch_end (int (length ids)) (batch_size cfg) k' - 1"
        using e2(2) by blast
      have "batch_end (int (length ids)) (batch_size cfg) k
            \<le> batch_end (int (length ids)) (batch_size cfg) k'"
        using batch_end_mono[OF assms(1)] sk(2) k'(1) by blast
      then show "batch_end (int (length ids)) (batch_size cfg) k - 1 \<le> last_processed_idx p"
        using k'(2) by simp
    qed
    show ?thesis
      using e1(2) s2 ge unfolding ev by (auto simp: sorted_append)
  qed
qed

lemma pos_covered:
  assumes "0 < B" "i < length ids" "m * B \<le> int i" "int i < (m + 1) * B"
  shows "ids ! i \<in> set (batch_ids ids B m)"
proof -
  have "int i = B * m + (int i - m * B)" by (simp add: algebra_simps)
  then have "int i div B = m"
    using assms by (intro int_div_pos_eq[where r = "int i - m * B"]) (auto simp: algebra_simps)
  then show ?thesis using pos_in_batch[OF assms(1,2)] by (metis nth_mem)
qed

text \<open>The loop over consecutive batch indices keeps the invariant of the progress record.\<close>

lemma batch_loop_invariant:
  assumes B: "0 < batch_size cfg" and d: "distinct ids"
    and "batch_loop en cfg ids [m..n] st = (r, st')"
    and "st_successful st \<inter> st_failed st = {}"
    and "\<forall>i < length ids. int i < m * batch_size cfg \<or> int i \<le> last_processed_idx (st_progress st)
           \<longrightarrow> ids ! i \<in> st_successful st \<union> st_failed st"
    and "trace (st_world st') = trace (st_world st) @ evs"
  shows "(\<forall>p \<in> set (saves evs). progress_invariant ids p)
       \<and> st_successful st' \<inter> st_failed st' = {}
       \<and> (\<forall>i < length ids. int i \<le> last_processed_idx (st_progress st')
             \<longrightarrow> ids ! i \<in> st_successful st' \<union> st_failed st')"
  using assms(3-)
proof (induction "nat (n - m + 1)" arbitrary: m st evs)
  case 0
  then have "[m..n] = []" by simp
  then have "st' = st" using "0.prems"(1) by simp
  then have "evs = []" using "0.prems"(4) by simp
  then show ?case using "0.prems" \<open>st' = st\<close> by simp
next
  case (Suc j)
  let ?B = "batch_size cfg"
  have mn: "m \<le> n" using Suc.hyps(2) by simp
  then have up: "[m..n] = m # [m + 1..n]" by (simp add: upto_rec1)
  have j: "j = nat (n - (m + 1) + 1)" using Suc.hyps(2) by simp
  have step: "\<And>r1 st1. process_batch en cfg ids m st = (r1, st1) \<Longrightarrow>
    st_successful st1 \<inter> st_failed st1 = {}
    \<and> (\<forall>i < length ids. int i \<le> last_processed_idx (st_progress st1)
             \<longrightarrow> ids ! i \<in> st_successful st1 \<union> st_failed st1)
    \<and> (r1 = None \<longrightarrow> (\<forall>i < length ids. int i < (m + 1) * ?B
             \<longrightarrow> ids ! i \<in> st_successful st1 \<union> st_failed st1))
    \<and> (\<exists>evs1. trace (st_world st1) = trace (st_world st) @ evs1
          \<and> (\<forall>p \<in> set (saves evs1). progress_invariant ids p))"
  proof -
    fix r1 st1 assume pb: "process_batch en cfg ids m st = (r1, st1)"
    note e = process_batch_effect[OF pb]
    have dj: "st_successful st1 \<inter> st_failed st1 = {}"
      using e(6) Suc.prems(2) batch_ids_distinct[OF d] by blast
    have old: "\<forall>i < length ids. int i < m * ?B \<or> int i \<le> last_processed_idx (st_progress st)
           \<longrightarrow> ids ! i \<in> st_successful st1 \<union> st_failed st1"
      using Suc.prems(3) e(1,2) by blast
    have cov: "set (batch_ids ids ?B m) \<subseteq> st_successful st1 \<union> st_failed st1 \<Longrightarrow>
         \<forall>i < length ids. int i < (m + 1) * ?B \<longrightarrow> ids ! i \<in> st_successful st1 \<union> st_failed st1"
    proof (intro allI impI)
      fix i assume c: "set (batch_ids ids ?B m) \<subseteq> st_successful st1 \<union> st_failed st1"
        and i: "i < length ids" "int i < (m + 1) * ?B"
      show "ids ! i \<in> st_successful st1 \<union> st_failed st1"
      proof (cases "int i < m * ?B")
        case True
        then show ?thesis using old i(1) by blast
      next
        case False
        then have "ids ! i \<in> set (batch_ids ids ?B m)"
          using pos_covered[OF B i(1)] i(2) by simp
        then show ?thesis using c by blast
      qed
    qed
    have be: "batch_end (int (length ids)) ?B m - 1 < (m + 1) * ?B"
      by (simp add: batch_end_def batch_start_def algebra_simps)
    from e(7) obtain evs1 where
      ev: "trace (st_world st1) = trace (st_world st) @ evs1"
          "saves evs1 = [] \<and> st_progress st1 = st_progress st
                \<and> st_successful st1 = st_successful st \<and> st_failed st1 = st_failed st
           \<or> saves evs1 = [st_progress st1]
                \<and> st_progress st1 =
                    \<lparr>last_processed_idx = batch_end (int (length ids)) ?B m - 1,
                     successful_ids = st_successful st1, failed_ids = st_failed st1\<rparr>
                \<and> set (batch_ids ids ?B m) \<subseteq> st_successful st1 \<union> st_failed st1"
      by blast
    have cur: "\<forall>i < length ids. int i \<le> last_processed_idx (st_progress st1)
             \<longrightarrow> ids ! i \<in> st_successful st1 \<union> st_failed st1"
      using ev(2)
    proof (elim disjE)
      assume "saves evs1 = [] \<and> st_progress st1 = st_progress st
                \<and> st_successful st1 = st_successful st \<and> st_failed st1 = st_failed st"
      then show ?thesis using old by simp
    next
      assume a: "saves evs1 = [st_progress st1]
                \<and> st_progress st1 =
                    \<lparr>last_processed_idx = batch_end (int (length ids)) ?B m - 1,
                     successful_ids = st_successful st1, failed_ids = st_failed st1\<rparr>
                \<and> set (batch_ids ids ?B m) \<subseteq> st_successful st1 \<union> st_failed st1"
      then have "last_processed_idx (st_progress st1) = batch_end (int (length ids)) ?B m - 1"
        by (metis progress.select_convs(1))
      then show ?thesis using cov a be by force
    qed
    have sv: "\<forall>p \<in> set (saves evs1). progress_invariant ids p"
      using ev(2)
    proof (elim disjE)
      assume "saves evs1 = [] \<and> st_progress st1 = st_progress st
                \<and> st_successful st1 = st_successful st \<and> st_failed st1 = st_failed st"
      then show ?thesis by simp
    next
      assume a: "saves evs1 = [st_progress st1]
                \<and> st_progress st1 =
                    \<lparr>last_processed_idx = batch_end (int (length ids)) ?B m - 1,
                     successful_ids = st_successful st1, failed_ids = st_failed st1\<rparr>
                \<and> set (batch_ids ids ?B m) \<subseteq> st_successful st1 \<union> st_failed st1"
      then have s: "successful_ids (st_progress st1) = st_successful st1"
                   "failed_ids (st_progress st1) = st_failed st1"
        by (metis progress.select_convs(2), metis progress.select_convs(3))
      have "progress_invariant ids (st_progress st1)"
        unfolding progress_invariant_def s using dj cur by blast
      then show ?thesis using a by simp
    qed
    have nx: "r1 = None \<longrightarrow> (\<forall>i < length ids. int i < (m + 1) * ?B
             \<longrightarrow> ids ! i \<in> st_successful st1 \<union> st_failed st1)"
      using cov e(5) by simp
    show "st_successful st1 \<inter> st_failed st1 = {}
    \<and> (\<forall>i < length ids. int i \<le> last_processed_idx (st_progress st1)
             \<longrightarrow> ids ! i \<in> st_successful st1 \<union> st_failed st1)
    \<and> (r1 = None \<longrightarrow> (\<forall>i < length ids. int i < (m + 1) * ?B
             \<longrightarrow> ids ! i \<in> st_successful st1 \<union> st_failed st1))
    \<and> (\<exists>evs1. trace (st_world st1) = trace (st_world st) @ evs1
          \<and> (\<forall>p \<in> set (saves evs1). progress_invariant ids p))"
      using dj cur nx ev(1) sv by blast
  qed
  have bl: "batch_loop en cfg ids (m # [m + 1..n]) st = (r, st')" using Suc.prems(1) up by simp
  from bl show ?case
  proof (cases rule: batch_loop_Cons_cases)
    case (stopped e)
    from step[OF stopped(1)] obtain evs1 where
      s: "st_successful st' \<inter> st_failed st' = {}"
         "\<forall>i < length ids. int i \<le> last_processed_idx (st_progress st')
             \<longrightarrow> ids ! i \<in> st_successful st' \<union> st_failed st'"
         "trace (st_world st') = trace (st_world st) @ evs1"
         "\<forall>p \<in> set (saves evs1). progress_invariant ids p" by blast
    have "evs1 = evs" using s(3) Suc.prems(4) by simp
    then show ?thesis using s by blast
  next
    case (continued st1)
    from step[OF continued(1)] obtain evs1 where
      s: "st_successful st1 \<inter> st_failed st1 = {}"
         "\<forall>i < length ids. int i \<le> last_processed_idx (st_progress st1)
             \<longrightarrow> ids ! i \<in> st_successful st1 \<union> st_failed st1"
         "\<forall>i < length ids. int i < (m + 1) * ?B
             \<longrightarrow> ids ! i \<in> st_successful st1 \<union> st_failed st1"
         "trace (st_world st1) = trace (st_world st) @ evs1"
         "\<forall>p \<in> set (saves evs1). progress_invariant ids p" by blast
    from batch_loop_effect[OF continued(2)] obtain evs2 where
      e2: "trace (st_world st') = trace (st_world st1) @ evs2" by blast
    have pre: "\<forall>i < length ids. int i < (m + 1) * ?B \<or> int i \<le> last_processed_idx (st_progress st1)
           \<longrightarrow> ids ! i \<in> st_successful st1 \<union> st_failed st1"
      using s(2,3) by blast
    note ih = Suc.hyps(1)[OF j continued(2) s(1) pre e2]
    have "evs = evs1 @ evs2" using s(4) e2 Suc.prems(4) by simp
    then show ?thesis using ih s(5) by auto
  qed
qed

section \<open>The run as a whole\<close>

lemma load_progress_effect:
  assumes "load_progress w = (j0, w0)"
  shows "sess w0 = sess w \<and> progress_file w0 = progress_file w \<and>
         (\<exists>pre. trace w0 = trace w @ pre \<and> scrapes pre = [] \<and> saves pre = []
                \<and> requests pre = [] \<and> db_saves pre = [])"
proof (cases "progress_file w")
  case Missing
  then have "w0 = w" using assms by (simp add: load_progress_def)
  then show ?thesis by simp
next
  case Unreadable
  then have "w0 = emit (LogError ''Error loading progress file'') w"
    using assms by (simp add: load_progress_def)
  then show ?thesis by (simp add: emit_def)
next
  case (Loadable j)
  then have "w0 = w" using assms by (simp add: load_progress_def)
  then show ?thesis by simp
qed

text \<open>An exception of the reads of lines 98 to 106 leaves the method at once.\<close>

lemma process_batches_early:
  assumes "load_progress w = (j0, w0)"
    and "batch_size cfg = 0 \<or> (\<exists>e. read_progress j0 = Inl e)"
  shows "\<exists>e. process_batches en cfg discovered mb w = (Some e, w0)"
  using assms
  by (auto simp: process_batches_def read_progress_def Let_def split: sum.splits prod.splits)

lemma process_batches_entered:
  assumes "load_progress w = (j0, w0)" "batch_size cfg \<noteq> 0" "read_progress j0 = Inr p0"
  shows "process_batches en cfg discovered mb w =
           (let (r1, st1) = try_body en cfg (limit_ids mb discovered) (last_processed_idx p0)
                              (initial_state p0 w0);
                (r2, w2) = (case r1 of
                              None \<Rightarrow> (None, st_world st1)
                            | Some e \<Rightarrow> except_handler en e (st_world st1))
            in (r2, save_progress en (final_progress (last_processed_idx p0) st1) w2))"
  using assms
  by (auto simp: process_batches_def read_progress_def Let_def split: sum.splits prod.splits)

lemma except_handler_effect:
  assumes "except_handler en e w = (r2, w2)"
  shows "trace w2 = trace w @ [Commit]" and "progress_file w2 = progress_file w"
    and "error_message (log (sess w2)) = Some (abort_message e)"
    and "end_time (log (sess w2)) = Some (length (trace w))"
    and "commit_fault en (length (trace w)) = None \<Longrightarrow> r2 = None"
    and "r2 = map_option Exception (commit_fault en (length (trace w)))"
proof -
  let ?w1 = "set_log (\<lambda>l. l\<lparr>end_time := Some (length (trace w)),
                             error_message := Some (abort_message e)\<rparr>) w"
  obtain rc wc where c: "commit_session en ?w1 = (rc, wc)" by (cases "commit_session en ?w1")
  have res: "r2 = map_option Exception rc" "w2 = wc"
    using assms c by (simp_all add: except_handler_def Let_def)
  note ce = commit_session_effect[OF c]
  show "trace w2 = trace w @ [Commit]" using ce res by (simp add: set_log_effect)
  show "progress_file w2 = progress_file w" using ce res by (simp add: set_log_effect)
  show "error_message (log (sess w2)) = Some (abort_message e)"
    using ce res by (simp add: set_log_effect)
  show "end_time (log (sess w2)) = Some (length (trace w))"
    using ce res by (simp add: set_log_effect)
  show "commit_fault en (length (trace w)) = None \<Longrightarrow> r2 = None"
    using ce res by (simp add: set_log_effect)
  show "r2 = map_option Exception (commit_fault en (length (trace w)))"
    using c res by (auto simp: commit_session_def set_log_effect split: option.splits)
qed

lemma try_body_effect:
  assumes "try_body en cfg ids c st0 = (r1, st1)"
  shows "\<exists>rl stl tail.
    batch_loop en cfg ids (batch_range (int (length ids)) (batch_size cfg) c) st0 = (rl, stl)
    \<and> st_progress st1 = st_progress stl \<and> st_successful st1 = st_successful stl
    \<and> st_failed st1 = st_failed stl
    \<and> trace (st_world st1) = trace (st_world stl) @ tail \<and> (tail = [] \<or> tail = [Commit])
    \<and> progress_file (st_world st1) = progress_file (st_world stl)
    \<and> (r1 = None \<longrightarrow> rl = None) \<and> (rl \<noteq> None \<longrightarrow> r1 = rl \<and> st1 = stl)"
proof -
  let ?ks = "batch_range (int (length ids)) (batch_size cfg) c"
  obtain rl stl where bl: "batch_loop en cfg ids ?ks st0 = (rl, stl)"
    by (cases "batch_loop en cfg ids ?ks st0")
  show ?thesis
  proof (cases rl)
    case (Some e)
    then have "r1 = Some e" "st1 = stl" using assms bl by (simp_all add: try_body_def)
    then show ?thesis using bl Some
      by (intro exI[of _ rl] exI[of _ stl] exI[of _ "[]"]) simp
  next
    case None
    let ?w = "st_world stl"
    let ?w1 = "set_log (\<lambda>l. l\<lparr>end_time := Some (length (trace ?w)),
                                    total_urls := Some (length ids),
                                    successful_scrapes := Some (card (st_successful stl)),
                                    failed_scrapes := Some (card (st_failed stl))\<rparr>) ?w"
    obtain rc wc where c: "commit_session en ?w1 = (rc, wc)" by (cases "commit_session en ?w1")
    have res: "r1 = map_option Exception rc" "st1 = stl\<lparr>st_world := wc\<rparr>"
      using assms bl None c by (simp_all add: try_body_def Let_def)
    note ce = commit_session_effect[OF c]
    have "trace (st_world st1) = trace (st_world stl) @ [Commit]"
      "progress_file (st_world st1) = progress_file (st_world stl)"
      using ce res by (simp_all add: set_log_effect)
    then show ?thesis using bl None res
      by (intro exI[of _ rl] exI[of _ stl] exI[of _ "[Commit]"]) simp
  qed
qed

text \<open>The shape of a whole run with a non-zero batch size.\<close>

lemma process_batches_run:
  assumes "batch_size cfg \<noteq> 0" "process_batches en cfg discovered mb w = (r, w')"
    and rd: "read_progress (fst (load_progress w)) = Inr p0"
  shows "\<exists>j0 w0 rl stl tail.
    load_progress w = (j0, w0)
    \<and> batch_loop en cfg (limit_ids mb discovered)
         (batch_range (int (length (limit_ids mb discovered))) (batch_size cfg)
            (last_processed_idx p0))
         (initial_state p0 w0) = (rl, stl)
    \<and> trace w' = trace (st_world stl) @ tail
                  @ [SaveProgress (final_progress (last_processed_idx p0) stl)]
    \<and> scrapes tail = [] \<and> saves tail = [] \<and> requests tail = [] \<and> db_saves tail = []
    \<and> (error_message (log (sess w')) = None \<longrightarrow> rl = None \<and> r = None)
    \<and> progress_file w' =
          (case write_fault en (length (trace (st_world stl) @ tail)) of
             Written \<Rightarrow> Json (final_progress (last_processed_idx p0) stl)
           | OpenFailed \<Rightarrow> progress_file (st_world stl)
           | DumpFailed \<Rightarrow> Unreadable)"
proof -
  let ?ids = "limit_ids mb discovered"
  obtain j0 w0 where lp: "load_progress w = (j0, w0)" by (cases "load_progress w")
  have rd0: "read_progress j0 = Inr p0" using rd lp by simp
  note pe = process_batches_entered[OF lp assms(1) rd0, of en discovered mb]
  let ?c = "last_processed_idx p0"
  obtain r1 st1 where tb: "try_body en cfg ?ids ?c (initial_state p0 w0) = (r1, st1)"
    by (cases "try_body en cfg ?ids ?c (initial_state p0 w0)")
  from try_body_effect[OF tb] obtain rl stl tail where
    t: "batch_loop en cfg ?ids (batch_range (int (length ?ids)) (batch_size cfg) ?c)
          (initial_state p0 w0) = (rl, stl)"
    "st_progress st1 = st_progress stl" "st_successful st1 = st_successful stl"
    "st_failed st1 = st_failed stl"
    "trace (st_world st1) = trace (st_world stl) @ tail" "tail = [] \<or> tail = [Commit]"
    "r1 = None \<longrightarrow> rl = None"
    "progress_file (st_world st1) = progress_file (st_world stl)"
    by blast
  have fp: "final_progress ?c st1 = final_progress ?c stl"
    using t(2,3,4) by (simp add: final_progress_def)
  have hh: "\<exists>r2 w2 tail2. r = r2 \<and> w' = save_progress en (final_progress ?c st1) w2
       \<and> trace w2 = trace (st_world st1) @ tail2 \<and> (tail2 = [] \<or> tail2 = [Commit])
       \<and> (error_message (log (sess w2)) = None \<longrightarrow> r1 = None \<and> r2 = None)
       \<and> progress_file w2 = progress_file (st_world st1)"
  proof (cases r1)
    case None
    have "r = None" "w' = save_progress en (final_progress ?c st1) (st_world st1)"
      using assms(2) pe tb None by (simp_all add: Let_def)
    then show ?thesis using None
      by (intro exI[of _ None] exI[of _ "st_world st1"] exI[of _ "[]"]) simp
  next
    case (Some e)
    obtain r2 w2 where h: "except_handler en e (st_world st1) = (r2, w2)"
      by (cases "except_handler en e (st_world st1)")
    have "r = r2" "w' = save_progress en (final_progress ?c st1) w2"
      using assms(2) pe tb Some h by (simp_all add: Let_def)
    then show ?thesis using except_handler_effect(1,2,3)[OF h]
      by (intro exI[of _ r2] exI[of _ w2] exI[of _ "[Commit]"]) simp
  qed
  then obtain r2 w2 tail2 where
    res: "r = r2" "w' = save_progress en (final_progress ?c st1) w2" and
    t2: "trace w2 = trace (st_world st1) @ tail2" "tail2 = [] \<or> tail2 = [Commit]"
        "error_message (log (sess w2)) = None \<longrightarrow> r1 = None \<and> r2 = None"
        "progress_file w2 = progress_file (st_world st1)"
    by (elim exE conjE)
  have tr: "trace w' = trace (st_world stl) @ (tail @ tail2)
                @ [SaveProgress (final_progress ?c stl)]"
    unfolding res(2) fp[symmetric] using t(5) t2(1) by (simp add: save_progress_effect)
  have pr: "scrapes (tail @ tail2) = []" "saves (tail @ tail2) = []"
       "requests (tail @ tail2) = []" "db_saves (tail @ tail2) = []"
    using t(6) t2(2) by auto
  have "sess w' = sess w2" unfolding res(2) by (simp add: save_progress_effect)
  then have em: "error_message (log (sess w')) = None \<longrightarrow> rl = None \<and> r = None"
    using res(1) t2(3) t(7) by simp
  have "trace w2 = trace (st_world stl) @ (tail @ tail2)" using t(5) t2(1) by simp
  then have wf: "progress_file w' =
          (case write_fault en (length (trace (st_world stl) @ (tail @ tail2))) of
             Written \<Rightarrow> Json (final_progress ?c stl)
           | OpenFailed \<Rightarrow> progress_file (st_world stl)
           | DumpFailed \<Rightarrow> Unreadable)"
    unfolding res(2) fp[symmetric]
    using t2(4) t(8) by (simp add: save_progress_def emit_def split: write_outcome.splits)
  show ?thesis
    using lp t(1) tr pr em wf
    by (intro exI[of _ j0] exI[of _ w0] exI[of _ rl] exI[of _ stl] exI[of _ "tail @ tail2"] conjI)
qed

section \<open>Loading the progress file\<close>

lemma subscript_not_dict:
  "(\<forall>kvs. j \<noteq> JObj kvs) \<Longrightarrow> subscript j k = Inl (Exception ''TypeError'')"
  by (cases j) simp_all

lemma subscript_missing_key:
  assumes "k \<notin> fst ` set kvs"
  shows "subscript (JObj kvs) k = Inl (Exception ''KeyError'')"
proof -
  have "map_of (rev kvs) k = None"
    using assms map_of_eq_None_iff[of "rev kvs" k] by simp
  then show ?thesis by simp
qed

text \<open>
  Claim C9, as the code has it. When the progress file is missing, or when opening or
  parsing it raises, \<^verbatim>\<open>_load_progress\<close> returns the zero record, which lines 98 to 106 read
  as the cursor \<open>-1\<close> and two empty sets, so that the loop starts at batch 0; the file that
  does not load is logged, and nothing is raised. A file that loads is returned as
  \<^verbatim>\<open>json.load\<close> gives it, unchecked and with no log entry. When the loaded value is not a
  dictionary, or lacks one of the three keys, or holds a value of the wrong type under
  one of them, the read of it raises \<^verbatim>\<open>TypeError\<close> or \<^verbatim>\<open>KeyError\<close> before the \<^verbatim>\<open>try\<close>, and
  that exception leaves \<^verbatim>\<open>process_batches\<close> with the world as it was: nothing is scraped,
  and no snapshot is saved.
\<close>

theorem load_progress_fresh:
  "(progress_file w = Missing \<or> progress_file w = Unreadable \<longrightarrow>
      fst (load_progress w) = JObj [(''last_processed_idx'', JInt (- 1)),
                                    (''successful_ids'', JArr []), (''failed_ids'', JArr [])]
      \<and> read_progress (fst (load_progress w))
          = Inr \<lparr>last_processed_idx = - 1, successful_ids = {}, failed_ids = {}\<rparr>
      \<and> batch_range L B (- 1) = [0 .. total_batches L B - 1])
   \<and> (progress_file w = Unreadable \<longrightarrow>
        snd (load_progress w) = w\<lparr>trace := trace w @ [LogError ''Error loading progress file'']\<rparr>)
   \<and> (progress_file w = Missing \<longrightarrow> snd (load_progress w) = w)
   \<and> (progress_file w = Loadable j \<longrightarrow> load_progress w = (j, w))
   \<and> (progress_file w = Loadable j
        \<and> (read_fields j = Inl e \<or> batch_size cfg \<noteq> 0 \<and> read_progress j = Inl e) \<longrightarrow>
        process_batches en cfg discovered mb w = (Some e, w))
   \<and> ((\<forall>kvs. j \<noteq> JObj kvs) \<longrightarrow> read_fields j = Inl (Exception ''TypeError''))
   \<and> (j = JObj kvs
        \<and> \<not> {''last_processed_idx'', ''successful_ids'', ''failed_ids''} \<subseteq> fst ` set kvs \<longrightarrow>
        (\<exists>e'. read_fields j = Inl e'))"
proof (intro conjI impI)
  assume a: "progress_file w = Missing \<or> progress_file w = Unreadable"
  then have z: "fst (load_progress w) = zero_record" by (auto simp: load_progress_def)
  show "fst (load_progress w) = JObj [(''last_processed_idx'', JInt (- 1)),
                                    (''successful_ids'', JArr []), (''failed_ids'', JArr [])]"
    using z by (simp add: zero_record_def)
  show "read_progress (fst (load_progress w))
          = Inr \<lparr>last_processed_idx = - 1, successful_ids = {}, failed_ids = {}\<rparr>"
    using z by (simp add: zero_progress_def)
  show "batch_range L B (- 1) = [0 .. total_batches L B - 1]"
    by (simp add: batch_range_def start_batch_def)
next
  assume "progress_file w = Unreadable"
  then show "snd (load_progress w) = w\<lparr>trace := trace w @ [LogError ''Error loading progress file'']\<rparr>"
    by (simp add: load_progress_def emit_def)
next
  assume "progress_file w = Missing"
  then show "snd (load_progress w) = w" by (simp add: load_progress_def)
next
  assume "progress_file w = Loadable j"
  then show "load_progress w = (j, w)" by (simp add: load_progress_def)
next
  assume a: "progress_file w = Loadable j
        \<and> (read_fields j = Inl e \<or> batch_size cfg \<noteq> 0 \<and> read_progress j = Inl e)"
  then have lp: "load_progress w = (j, w)" by (simp add: load_progress_def)
  from a have "read_fields j = Inl e \<or> batch_size cfg \<noteq> 0 \<and> read_progress j = Inl e" by simp
  then show "process_batches en cfg discovered mb w = (Some e, w)"
    using lp
    by (auto simp: process_batches_def read_progress_def Let_def split: sum.splits prod.splits)
next
  assume "\<forall>kvs. j \<noteq> JObj kvs"
  then show "read_fields j = Inl (Exception ''TypeError'')"
    by (simp add: read_fields_def subscript_not_dict)
next
  assume a: "j = JObj kvs
        \<and> \<not> {''last_processed_idx'', ''successful_ids'', ''failed_ids''} \<subseteq> fst ` set kvs"
  then have "''last_processed_idx'' \<notin> fst ` set kvs \<or> ''successful_ids'' \<notin> fst ` set kvs
             \<or> ''failed_ids'' \<notin> fst ` set kvs" by blast
  then show "\<exists>e'. read_fields j = Inl e'"
    using a subscript_missing_key[of _ kvs]
    by (auto simp: read_fields_def split: sum.splits)
qed

text \<open>
  A progress file that holds \<^verbatim>\<open>{}\<close>: \<^verbatim>\<open>_load_progress\<close> returns the empty dictionary, not
  the zero record, and logs nothing; the run that follows ends with \<^verbatim>\<open>KeyError\<close>, having
  scraped and saved nothing.
\<close>

theorem load_progress_fresh_counterexample:
  "progress_file w_empty_dict = Loadable (JObj [])
   \<and> fst (load_progress w_empty_dict) = JObj []
   \<and> trace (snd (load_progress w_empty_dict)) = []
   \<and> fst (process_batches env_ok cfg2 [''a'', ''b'', ''c''] None w_empty_dict)
       = Some (Exception ''KeyError'')
   \<and> trace (snd (process_batches env_ok cfg2 [''a'', ''b'', ''c''] None w_empty_dict)) = []
   \<and> progress_file (snd (process_batches env_ok cfg2 [''a'', ''b'', ''c''] None w_empty_dict))
       = Loadable (JObj [])"
  by code_simp

text \<open>
  An unreadable file gives the zero record and one log entry, a missing file the zero
  record; a file with \<^verbatim>\<open>null\<close> for its cursor is returned as it is and ends the run with
  \<^verbatim>\<open>TypeError\<close>; \<^verbatim>\<open>null\<close> and \<^verbatim>\<open>{}\<close> cannot be read.
\<close>

theorem load_progress_fresh_witness:
  "fst (load_progress w_unreadable)
     = JObj [(''last_processed_idx'', JInt (- 1)), (''successful_ids'', JArr []),
             (''failed_ids'', JArr [])]
   \<and> read_progress (fst (load_progress w_unreadable))
       = Inr \<lparr>last_processed_idx = - 1, successful_ids = {}, failed_ids = {}\<rparr>
   \<and> batch_range 25 10 (- 1) = [0, 1, 2]
   \<and> trace (snd (load_progress w_unreadable)) = [LogError ''Error loading progress file'']
   \<and> snd (load_progress w_fresh) = w_fresh
   \<and> fst (load_progress w_null_cursor)
       = JObj [(''last_processed_idx'', JNull), (''successful_ids'', JArr [JStr ''a'']),
               (''failed_ids'', JArr [])]
   \<and> process_batches env_ok cfg2 [''a'', ''b'', ''c''] None w_null_cursor
       = (Some (Exception ''TypeError''), w_null_cursor)
   \<and> read_fields JNull = Inl (Exception ''TypeError'')
   \<and> read_fields (JObj []) = Inl (Exception ''KeyError'')"
proof -
  let ?j = "JObj [(''last_processed_idx'', JNull), (''successful_ids'', JArr [JStr ''a'']),
                  (''failed_ids'', JArr [])]"
  have u: "progress_file w_unreadable = Unreadable" by (simp add: w_unreadable_def)
  have f: "progress_file w_fresh = Missing" by (simp add: w_fresh_def)
  have n: "progress_file w_null_cursor = Loadable ?j" by (simp add: w_null_cursor_def)
  have nz: "batch_size cfg2 \<noteq> 0" by (simp add: cfg2_def)
  have rn: "read_progress ?j = Inl (Exception ''TypeError'')"
    by (simp add: read_progress_def read_fields_def)
  have nd: "\<forall>kvs. JNull \<noteq> JObj kvs" by simp
  have mk: "\<not> {''last_processed_idx'', ''successful_ids'', ''failed_ids''} \<subseteq> fst ` set []"
    by simp
  note t1 = load_progress_fresh[where w = w_unreadable and L = 25 and B = 10]
  note t2 = load_progress_fresh[where w = w_fresh]
  note t3 = load_progress_fresh[where w = w_null_cursor and j = ?j
              and e = "Exception ''TypeError''" and cfg = cfg2 and en = env_ok
              and discovered = "[''a'', ''b'', ''c'']" and mb = None]
  note t4 = load_progress_fresh[where j = JNull]
  note t5 = load_progress_fresh[where j = "JObj []" and kvs = "[]"]
  have a: "fst (load_progress w_unreadable)
     = JObj [(''last_processed_idx'', JInt (- 1)), (''successful_ids'', JArr []),
             (''failed_ids'', JArr [])]"
    and b: "read_progress (fst (load_progress w_unreadable))
       = Inr \<lparr>last_processed_idx = - 1, successful_ids = {}, failed_ids = {}\<rparr>"
    and c: "batch_range 25 10 (- 1) = [0 .. total_batches 25 10 - 1]"
    and d: "snd (load_progress w_unreadable)
       = w_unreadable\<lparr>trace := trace w_unreadable @ [LogError ''Error loading progress file'']\<rparr>"
    using t1 u by blast+
  have c': "[0 .. total_batches 25 10 - 1] = [0, 1, 2]"
    by (simp add: total_batches_def upto.simps)
  have d': "trace w_unreadable = []" by (simp add: w_unreadable_def)
  have e: "snd (load_progress w_fresh) = w_fresh" using t2 f by blast
  have g: "load_progress w_null_cursor = (?j, w_null_cursor)" using t3 n by blast
  have h: "process_batches env_ok cfg2 [''a'', ''b'', ''c''] None w_null_cursor
       = (Some (Exception ''TypeError''), w_null_cursor)"
    using t3 n nz rn by blast
  have i: "read_fields JNull = Inl (Exception ''TypeError'')" using t4 nd by blast
  have "\<exists>e'. read_fields (JObj []) = Inl e'" using t5 mk by blast
  then have k: "read_fields (JObj []) = Inl (Exception ''KeyError'')"
    by (auto simp: read_fields_def)
  show ?thesis using a b c c' d d' e g h i k by simp
qed

section \<open>Properties of a run\<close>

lemma new_events_append: "trace w' = trace w @ evs \<Longrightarrow> new_events w w' = evs"
  by (simp add: new_events_def)

text \<open>
  Claim C3. An identifier that the loaded progress record holds in \<open>successful_ids\<close> or in
  \<open>failed_ids\<close> (the two sets that lines 99 and 100 read off the loaded value) is not among
  the calls of \<^verbatim>\<open>scrape_bacteria\<close> of the run, whatever the batch size, the remote site
  and the database do. An iteration of the batch loop whose to-process list is empty
  returns the state as it found it, so it saves no batch to the database and writes no
  progress file.
\<close>

theorem no_double_processing:
  "(read_fields (fst (load_progress w)) = Inr (c, S, F) \<longrightarrow>
      (\<forall>x \<in> S \<union> F.
         x \<notin> set (scrapes (new_events w (snd (process_batches en cfg discovered mb w))))))
   \<and> (batch_to_process (st_successful st) (st_failed st) (batch_ids ids (batch_size cfg) k) = []
        \<longrightarrow> process_batch en cfg ids k st = (None, st)
          \<and> db_saves (new_events (st_world st) (st_world (snd (process_batch en cfg ids k st)))) = []
          \<and> saves (new_events (st_world st) (st_world (snd (process_batch en cfg ids k st)))) = [])"
proof (intro conjI ballI impI)
  fix x
  assume rf: "read_fields (fst (load_progress w)) = Inr (c, S, F)" and x: "x \<in> S \<union> F"
  obtain r w' where run: "process_batches en cfg discovered mb w = (r, w')"
    by (cases "process_batches en cfg discovered mb w")
  obtain j0 w0 where lp: "load_progress w = (j0, w0)" by (cases "load_progress w")
  from load_progress_effect[OF lp] obtain pre where
    pre: "trace w0 = trace w @ pre" "scrapes pre = []" by blast
  show "x \<notin> set (scrapes (new_events w (snd (process_batches en cfg discovered mb w))))"
  proof (cases "batch_size cfg = 0 \<or> (\<exists>e. read_progress j0 = Inl e)")
    case True
    from process_batches_early[OF lp True] obtain e where
      "process_batches en cfg discovered mb w = (Some e, w0)" by blast
    then show ?thesis using pre by (simp add: new_events_append)
  next
    case False
    then have nz: "batch_size cfg \<noteq> 0" by simp
    from False obtain p0 where rd0: "read_progress j0 = Inr p0"
      by (cases "read_progress j0") auto
    have rd: "read_progress (fst (load_progress w)) = Inr p0" using rd0 lp by simp
    have sets: "successful_ids p0 = S" "failed_ids p0 = F"
      using read_progress_fields[OF rd0] rf lp by auto
    from process_batches_run[OF nz run rd] obtain ja wa rl stl tail where
      m: "load_progress w = (ja, wa)"
         "batch_loop en cfg (limit_ids mb discovered)
           (batch_range (int (length (limit_ids mb discovered))) (batch_size cfg)
              (last_processed_idx p0))
           (initial_state p0 wa) = (rl, stl)"
         "trace w' = trace (st_world stl) @ tail
                  @ [SaveProgress (final_progress (last_processed_idx p0) stl)]"
         "scrapes tail = []" by blast
    have wa: "wa = w0" using m(1) lp by simp
    from batch_loop_effect[OF m(2)] obtain evs where
      ev: "trace (st_world stl) = trace (st_world (initial_state p0 wa)) @ evs"
          "set (scrapes evs) \<inter> (st_successful (initial_state p0 wa) \<union> st_failed (initial_state p0 wa)) = {}"
      by blast
    have "trace w' = trace w @ (pre @ evs @ tail
              @ [SaveProgress (final_progress (last_processed_idx p0) stl)])"
      using m(3) ev(1) pre(1) wa by (simp add: initial_state_def)
    then have "scrapes (new_events w w') = scrapes evs"
      using pre(2) m(4) by (simp add: new_events_append)
    moreover have "x \<notin> set (scrapes evs)"
      using ev(2) x sets by (auto simp: initial_state_def)
    ultimately show ?thesis using run by simp
  qed
next
  assume e: "batch_to_process (st_successful st) (st_failed st) (batch_ids ids (batch_size cfg) k) = []"
  then show pb: "process_batch en cfg ids k st = (None, st)"
    by (simp add: process_batch_def Let_def)
  show "db_saves (new_events (st_world st) (st_world (snd (process_batch en cfg ids k st)))) = []"
    using pb by (simp add: new_events_def)
  show "saves (new_events (st_world st) (st_world (snd (process_batch en cfg ids k st)))) = []"
    using pb by (simp add: new_events_def)
qed

lemma sorted_le_last:
  fixes xs :: "int list"
  shows "sorted xs \<Longrightarrow> x \<in> set xs \<Longrightarrow> x \<le> last xs"
  by (induction xs) auto

text \<open>
  Claim C7. With a positive batch size, the cursors of the snapshots handed to
  \<^verbatim>\<open>_save_progress\<close> in one run, the one of the \<^verbatim>\<open>finally\<close> block included, never decrease.
\<close>

theorem cursor_monotone:
  assumes "0 < batch_size cfg"
  shows "sorted (map last_processed_idx
           (saves (new_events w (snd (process_batches en cfg discovered mb w)))))"
proof -
  obtain r w' where run: "process_batches en cfg discovered mb w = (r, w')"
    by (cases "process_batches en cfg discovered mb w")
  have nz: "batch_size cfg \<noteq> 0" using assms by simp
  obtain j0 w0 where lp: "load_progress w = (j0, w0)" by (cases "load_progress w")
  from load_progress_effect[OF lp] obtain pre where
    pre: "trace w0 = trace w @ pre" "saves pre = []" by blast
  show ?thesis
  proof (cases "read_progress j0")
    case (Inl e)
    then have "batch_size cfg = 0 \<or> (\<exists>e. read_progress j0 = Inl e)" by blast
    from process_batches_early[OF lp this] obtain e' where
      "process_batches en cfg discovered mb w = (Some e', w0)" by blast
    then show ?thesis using pre by (simp add: new_events_append)
  next
    case (Inr p0)
  then have rd: "read_progress (fst (load_progress w)) = Inr p0" using lp by simp
  from process_batches_run[OF nz run rd] obtain ja wa rl stl tail where
      m: "load_progress w = (ja, wa)"
         "batch_loop en cfg (limit_ids mb discovered)
           (batch_range (int (length (limit_ids mb discovered))) (batch_size cfg)
              (last_processed_idx p0))
           (initial_state p0 wa) = (rl, stl)"
         "trace w' = trace (st_world stl) @ tail
                  @ [SaveProgress (final_progress (last_processed_idx p0) stl)]"
         "saves tail = []" by blast
  have wa: "wa = w0" using m(1) lp by simp
  from batch_loop_effect[OF m(2)] obtain evs where
    ev: "trace (st_world stl) = trace (st_world (initial_state p0 wa)) @ evs"
        "saves evs \<noteq> [] \<longrightarrow> st_progress stl = last (saves evs)"
    by blast
  have srt: "sorted (map last_processed_idx (saves evs))"
    by (rule batch_loop_sorted[OF assms _ m(2) ev(1)]) (simp add: batch_range_def)
  let ?fp = "final_progress (last_processed_idx p0) stl"
  have "trace w' = trace w @ (pre @ evs @ tail @ [SaveProgress ?fp])"
    using m(3) ev(1) pre(1) wa by (simp add: initial_state_def)
  then have sv: "saves (new_events w w') = saves evs @ [?fp]"
    using pre(2) m(4) by (simp add: new_events_append)
  have le: "\<forall>c \<in> set (map last_processed_idx (saves evs)). c \<le> last_processed_idx ?fp"
  proof
    fix c assume c: "c \<in> set (map last_processed_idx (saves evs))"
    then have ne: "saves evs \<noteq> []" by auto
    have "c \<le> last (map last_processed_idx (saves evs))"
      using srt c by (rule sorted_le_last)
    also have "\<dots> = last_processed_idx (st_progress stl)"
      using ne ev(2) by (simp add: last_map)
    also have "\<dots> \<le> last_processed_idx ?fp" by (simp add: final_progress_def)
    finally show "c \<le> last_processed_idx ?fp" .
  qed
  have "sorted (map last_processed_idx (saves evs @ [?fp]))"
    using srt le by (simp add: sorted_append)
  then show ?thesis using sv run by simp
  qed
qed

text \<open>
  Claim C6. With a positive batch size, pairwise distinct identifiers and a loaded progress
  record (what lines 98 to 106 read off the loaded value) that satisfies the invariant,
  every snapshot handed to \<^verbatim>\<open>_save_progress\<close> in the run satisfies it: the two sets are
  disjoint and hold every identifier at a position up to the cursor.
\<close>

theorem saved_progress_invariant:
  assumes B: "0 < batch_size cfg" and d: "distinct discovered"
    and rd: "read_progress (fst (load_progress w)) = Inr p0"
    and inv: "progress_invariant (limit_ids mb discovered) p0"
  shows "\<forall>p \<in> set (saves (new_events w (snd (process_batches en cfg discovered mb w)))).
           progress_invariant (limit_ids mb discovered) p"
proof -
  let ?ids = "limit_ids mb discovered"
  let ?B = "batch_size cfg"
  have dist: "distinct ?ids"
    using d by (auto simp: limit_ids_def py_slice_distinct split: option.splits)
  obtain r w' where run: "process_batches en cfg discovered mb w = (r, w')"
    by (cases "process_batches en cfg discovered mb w")
  have nz: "?B \<noteq> 0" using B by simp
  from process_batches_run[OF nz run rd] obtain j0 w0 rl stl tail where
      m: "load_progress w = (j0, w0)"
         "batch_loop en cfg ?ids
           (batch_range (int (length ?ids)) ?B (last_processed_idx p0))
           (initial_state p0 w0) = (rl, stl)"
         "trace w' = trace (st_world stl) @ tail
                  @ [SaveProgress (final_progress (last_processed_idx p0) stl)]"
         "saves tail = []" by blast
  let ?c = "last_processed_idx p0"
  let ?st0 = "initial_state p0 w0"
  from load_progress_effect[OF m(1)] obtain pre where
    pre: "trace w0 = trace w @ pre" "saves pre = []" by blast
  from batch_loop_effect[OF m(2)] obtain evs where
    ev: "trace (st_world stl) = trace (st_world ?st0) @ evs"
    and mono: "st_successful ?st0 \<subseteq> st_successful stl" "st_failed ?st0 \<subseteq> st_failed stl"
    by blast
  have inv0: "successful_ids p0 \<inter> failed_ids p0 = {}"
    "\<forall>i < length ?ids. int i \<le> ?c \<longrightarrow> ?ids ! i \<in> successful_ids p0 \<union> failed_ids p0"
    using inv by (simp_all add: progress_invariant_def)
  have "(?c + 1) div ?B * ?B + (?c + 1) mod ?B = ?c + 1" by simp
  moreover have "0 \<le> (?c + 1) mod ?B" using B by simp
  ultimately have sb: "start_batch ?c ?B * ?B \<le> ?c + 1"
    unfolding start_batch_def by linarith
  have pre0: "\<forall>i < length ?ids. int i < start_batch ?c ?B * ?B
               \<or> int i \<le> last_processed_idx (st_progress ?st0)
           \<longrightarrow> ?ids ! i \<in> st_successful ?st0 \<union> st_failed ?st0"
    using inv0(2) sb by (auto simp: initial_state_def)
  have bl: "batch_loop en cfg ?ids [start_batch ?c ?B .. total_batches (int (length ?ids)) ?B - 1]
              ?st0 = (rl, stl)"
    using m(2) by (simp add: batch_range_def)
  have dj0: "st_successful ?st0 \<inter> st_failed ?st0 = {}" using inv0(1) by (simp add: initial_state_def)
  note li = batch_loop_invariant[OF B dist bl dj0 pre0 ev]
  let ?fp = "final_progress ?c stl"
  have fin: "progress_invariant ?ids ?fp"
    unfolding progress_invariant_def
  proof (intro conjI allI impI)
    show "successful_ids ?fp \<inter> failed_ids ?fp = {}" using li by (simp add: final_progress_def)
  next
    fix i assume i: "i < length ?ids" "int i \<le> last_processed_idx ?fp"
    then have "int i \<le> ?c \<or> int i \<le> last_processed_idx (st_progress stl)"
      by (auto simp: final_progress_def)
    then show "?ids ! i \<in> successful_ids ?fp \<union> failed_ids ?fp"
    proof
      assume "int i \<le> ?c"
      then have "?ids ! i \<in> successful_ids p0 \<union> failed_ids p0" using inv0(2) i(1) by blast
      then show ?thesis using mono by (auto simp: final_progress_def initial_state_def)
    next
      assume "int i \<le> last_processed_idx (st_progress stl)"
      then show ?thesis using li i(1) by (simp add: final_progress_def)
    qed
  qed
  have "trace w' = trace w @ (pre @ evs @ tail @ [SaveProgress ?fp])"
    using m(3) ev pre(1) by (simp add: initial_state_def)
  then have sv: "saves (new_events w w') = saves evs @ [?fp]"
    using pre(2) m(4) by (simp add: new_events_append)
  show ?thesis using sv li fin run by auto
qed

section \<open>Witnesses and idempotent resumption\<close>

text \<open>The run resumed after \<^verbatim>\<open>a\<close> succeeded and \<^verbatim>\<open>b\<close> failed scrapes \<^verbatim>\<open>c\<close> only.\<close>

theorem no_double_processing_witness:
  "''a'' \<notin> set (scrapes (new_events w_resumed
              (snd (process_batches env_ok cfg2 [''a'', ''b'', ''c''] None w_resumed))))
   \<and> ''b'' \<notin> set (scrapes (new_events w_resumed
              (snd (process_batches env_ok cfg2 [''a'', ''b'', ''c''] None w_resumed))))
   \<and> scrapes (new_events w_resumed
              (snd (process_batches env_ok cfg2 [''a'', ''b'', ''c''] None w_resumed))) = [''c'']
   \<and> process_batch env_ok cfg2 [''a'', ''b'', ''c''] 0
        (initial_state \<lparr>last_processed_idx = 1, successful_ids = {''a''}, failed_ids = {''b''}\<rparr>
           w_resumed)
       = (None, initial_state
                  \<lparr>last_processed_idx = 1, successful_ids = {''a''}, failed_ids = {''b''}\<rparr>
                  w_resumed)"
proof -
  let ?st = "initial_state \<lparr>last_processed_idx = 1, successful_ids = {''a''}, failed_ids = {''b''}\<rparr>
               w_resumed"
  have s: "read_fields (fst (load_progress w_resumed)) = Inr (JInt 1, {''a''}, {''b''})"
    by (simp add: load_progress_def w_resumed_def)
  have e: "batch_to_process (st_successful ?st) (st_failed ?st)
             (batch_ids [''a'', ''b'', ''c''] (batch_size cfg2) 0) = []"
    by code_simp
  have v: "scrapes (new_events w_resumed
              (snd (process_batches env_ok cfg2 [''a'', ''b'', ''c''] None w_resumed))) = [''c'']"
    by code_simp
  show ?thesis
    using no_double_processing[of w_resumed "JInt 1" "{''a''}" "{''b''}" env_ok cfg2
            "[''a'', ''b'', ''c'']" None ?st "[''a'', ''b'', ''c'']" 0] s e v
    by simp
qed

text \<open>A fresh run over three identifiers in batches of two saves the cursors 1, 2, 2.\<close>

theorem cursor_monotone_witness:
  "0 < batch_size cfg2
   \<and> sorted (map last_processed_idx (saves (new_events w_fresh
        (snd (process_batches env_ok cfg2 [''a'', ''b'', ''c''] None w_fresh)))))
   \<and> map last_processed_idx (saves (new_events w_fresh
        (snd (process_batches env_ok cfg2 [''a'', ''b'', ''c''] None w_fresh)))) = [1, 2, 2]"
proof -
  have b: "0 < batch_size cfg2" by (simp add: cfg2_def)
  have v: "map last_processed_idx (saves (new_events w_fresh
        (snd (process_batches env_ok cfg2 [''a'', ''b'', ''c''] None w_fresh)))) = [1, 2, 2]"
    by code_simp
  show ?thesis
    using cursor_monotone[OF b, of w_fresh env_ok "[''a'', ''b'', ''c'']" None] b v by blast
qed

text \<open>A resumed run with an unreachable item: both snapshots it saves keep the invariant.\<close>

theorem saved_progress_invariant_witness:
  "0 < batch_size cfg2 \<and> distinct [''a'', ''b'', ''c'']
   \<and> read_progress (fst (load_progress w_resumed))
       = Inr \<lparr>last_processed_idx = 1, successful_ids = {''a''}, failed_ids = {''b''}\<rparr>
   \<and> progress_invariant (limit_ids None [''a'', ''b'', ''c''])
         \<lparr>last_processed_idx = 1, successful_ids = {''a''}, failed_ids = {''b''}\<rparr>
   \<and> list_all (progress_invariant (limit_ids None [''a'', ''b'', ''c'']))
        (saves (new_events w_resumed
           (snd (process_batches env_b_down cfg2 [''a'', ''b'', ''c''] None w_resumed))))
   \<and> length (saves (new_events w_resumed
           (snd (process_batches env_b_down cfg2 [''a'', ''b'', ''c''] None w_resumed)))) = 2"
proof -
  have b: "0 < batch_size cfg2" by (simp add: cfg2_def)
  have d: "distinct [''a'', ''b'', ''c'']" by simp
  have r: "read_progress (fst (load_progress w_resumed))
       = Inr \<lparr>last_processed_idx = 1, successful_ids = {''a''}, failed_ids = {''b''}\<rparr>"
    by (simp add: load_progress_def w_resumed_def)
  have i: "progress_invariant (limit_ids None [''a'', ''b'', ''c''])
         \<lparr>last_processed_idx = 1, successful_ids = {''a''}, failed_ids = {''b''}\<rparr>"
    by (simp add: progress_invariant_def limit_ids_def less_Suc_eq numeral_3_eq_3)
  have l: "length (saves (new_events w_resumed
           (snd (process_batches env_b_down cfg2 [''a'', ''b'', ''c''] None w_resumed)))) = 2"
    by code_simp
  show ?thesis
    using saved_progress_invariant[OF b d r i, of env_b_down] b d r i l
    by (simp add: list_all_iff)
qed

text \<open>
  Claim C2. Take a run with a positive batch size that returned with no error recorded in
  its scrape log and whose final snapshot was written. A second run on the same discovery
  result and the same progress file, against any remote site and any database, calls
  \<^verbatim>\<open>scrape_bacteria\<close> for no item, sends no request, saves no batch to the database, hands
  \<^verbatim>\<open>_save_progress\<close> the record the file already holds, once, and leaves the file as it was
  (provided the file system does not fail in the middle of that write).
\<close>

theorem idempotent_resume:
  assumes B: "0 < batch_size cfg"
    and run1: "process_batches en1 cfg discovered mb w = (r1, w1)"
    and ret: "r1 = None"
    and complete: "error_message (log (sess w1)) = None"
    and wr1: "\<forall>t. write_fault en1 t = Written"
    and same: "progress_file w2 = progress_file w1"
    and wr2: "\<forall>t. write_fault en2 t \<noteq> DumpFailed"
    and run2: "process_batches en2 cfg discovered mb w2 = (r2, w2')"
  shows "scrapes (new_events w2 w2') = [] \<and> requests (new_events w2 w2') = []
       \<and> db_saves (new_events w2 w2') = []
       \<and> (\<exists>p. progress_file w1 = Json p \<and> saves (new_events w2 w2') = [p])
       \<and> progress_file w2' = progress_file w1"
proof -
  let ?ids = "limit_ids mb discovered"
  let ?B = "batch_size cfg"
  let ?L = "int (length ?ids)"
  have nz: "?B \<noteq> 0" using B by simp
  obtain ja wa where lp: "load_progress w = (ja, wa)" by (cases "load_progress w")
  have "\<exists>p0. read_progress ja = Inr p0"
  proof (rule ccontr)
    assume "\<not> (\<exists>p0. read_progress ja = Inr p0)"
    then have "batch_size cfg = 0 \<or> (\<exists>e. read_progress ja = Inl e)"
      by (cases "read_progress ja") auto
    from process_batches_early[OF lp this, of en1 discovered mb] show False
      using run1 ret by auto
  qed
  then obtain p0 where rd: "read_progress (fst (load_progress w)) = Inr p0"
    using lp by auto
  from process_batches_run[OF nz run1 rd] obtain j0 w0 rl stl tail where
      m: "load_progress w = (j0, w0)"
         "batch_loop en1 cfg ?ids (batch_range ?L ?B (last_processed_idx p0))
           (initial_state p0 w0) = (rl, stl)"
         "trace w1 = trace (st_world stl) @ tail
                  @ [SaveProgress (final_progress (last_processed_idx p0) stl)]"
         "scrapes tail = []" "saves tail = []" "requests tail = []" "db_saves tail = []"
         "error_message (log (sess w1)) = None \<longrightarrow> rl = None \<and> r1 = None"
         "progress_file w1 =
          (case write_fault en1 (length (trace (st_world stl) @ tail)) of
             Written \<Rightarrow> Json (final_progress (last_processed_idx p0) stl)
           | OpenFailed \<Rightarrow> progress_file (st_world stl)
           | DumpFailed \<Rightarrow> Unreadable)"
    by (elim exE conjE)
  let ?c0 = "last_processed_idx p0"
  let ?p = "final_progress ?c0 stl"
  have rl: "rl = None" using m(8) complete by simp
  have f1: "progress_file w1 = Json ?p" using m(9) wr1 by simp
  have cov: "\<forall>k \<in> set (batch_range ?L ?B ?c0).
               set (batch_ids ?ids ?B k) \<subseteq> st_successful stl \<union> st_failed stl"
    using batch_loop_covers m(2) rl by blast
  have lp2: "load_progress w2 = (dump ?p, w2)" using same f1 by (simp add: load_progress_def)
  have rd2: "read_progress (fst (load_progress w2)) = Inr ?p" using lp2 by simp
  let ?c1 = "last_processed_idx ?p"
  have c01: "?c0 \<le> ?c1" by (simp add: final_progress_def)
  have "start_batch ?c0 ?B \<le> start_batch ?c1 ?B"
    unfolding start_batch_def using c01 B by (intro zdiv_mono1) simp_all
  then have sub: "set (batch_range ?L ?B ?c1) \<subseteq> set (batch_range ?L ?B ?c0)"
    by (auto simp: batch_range_def)
  let ?st2 = "initial_state ?p w2"
  have sets2: "st_successful ?st2 = st_successful stl" "st_failed ?st2 = st_failed stl"
    by (simp_all add: initial_state_def final_progress_def)
  have idle: "batch_loop en2 cfg ?ids (batch_range ?L ?B ?c1) ?st2 = (None, ?st2)"
    by (rule batch_loop_idle) (use cov sub sets2 in auto)
  from process_batches_run[OF nz run2 rd2] obtain j0' w0' rl' stl' tail' where
      m2: "load_progress w2 = (j0', w0')"
         "batch_loop en2 cfg ?ids (batch_range ?L ?B (last_processed_idx ?p))
           (initial_state ?p w0') = (rl', stl')"
         "trace w2' = trace (st_world stl') @ tail'
                  @ [SaveProgress (final_progress (last_processed_idx ?p) stl')]"
         "scrapes tail' = []" "saves tail' = []" "requests tail' = []" "db_saves tail' = []"
         "progress_file w2' =
          (case write_fault en2 (length (trace (st_world stl') @ tail')) of
             Written \<Rightarrow> Json (final_progress (last_processed_idx ?p) stl')
           | OpenFailed \<Rightarrow> progress_file (st_world stl')
           | DumpFailed \<Rightarrow> Unreadable)"
    by (elim exE conjE)
  have eqs: "w0' = w2" using m2(1) lp2 by simp
  have stl': "stl' = ?st2" using m2(2) idle eqs by simp
  have fp2: "final_progress (last_processed_idx ?p) stl' = ?p"
    unfolding stl' by (simp add: final_progress_def initial_state_def)
  have tr: "trace w2' = trace w2 @ (tail' @ [SaveProgress ?p])"
    using m2(3) fp2 stl' by (simp add: initial_state_def)
  have ne: "new_events w2 w2' = tail' @ [SaveProgress ?p]"
    using tr by (rule new_events_append)
  have pf: "progress_file w2' = progress_file w1"
  proof (cases "write_fault en2 (length (trace (st_world stl') @ tail'))")
    case Written
    then show ?thesis using m2(8) fp2 f1 by simp
  next
    case OpenFailed
    then show ?thesis using m2(8) stl' same by (simp add: initial_state_def)
  next
    case DumpFailed
    then show ?thesis using wr2 by simp
  qed
  have "\<exists>p. progress_file w1 = Json p \<and> saves (new_events w2 w2') = [p]"
    using f1 ne m2(5) by simp
  then show ?thesis using ne m2(4,6,7) pf by simp
qed


text \<open>A run with an unreachable item, followed by a run against the healthy site.\<close>

theorem idempotent_resume_witness:
  "scrapes (new_events (snd (process_batches env_b_down cfg2 [''a'', ''b'', ''c''] None w_fresh))
      (snd (process_batches env_ok cfg2 [''a'', ''b'', ''c''] None
             (snd (process_batches env_b_down cfg2 [''a'', ''b'', ''c''] None w_fresh))))) = []
   \<and> requests (new_events (snd (process_batches env_b_down cfg2 [''a'', ''b'', ''c''] None w_fresh))
      (snd (process_batches env_ok cfg2 [''a'', ''b'', ''c''] None
             (snd (process_batches env_b_down cfg2 [''a'', ''b'', ''c''] None w_fresh))))) = []
   \<and> progress_file (snd (process_batches env_ok cfg2 [''a'', ''b'', ''c''] None
             (snd (process_batches env_b_down cfg2 [''a'', ''b'', ''c''] None w_fresh))))
       = Json \<lparr>last_processed_idx = 2, successful_ids = {''a'', ''c''}, failed_ids = {''b''}\<rparr>"
proof -
  let ?run1 = "process_batches env_b_down cfg2 [''a'', ''b'', ''c''] None w_fresh"
  let ?run2 = "process_batches env_ok cfg2 [''a'', ''b'', ''c''] None (snd ?run1)"
  have b: "0 < batch_size cfg2" by (simp add: cfg2_def)
  have r1: "?run1 = (fst ?run1, snd ?run1)" by simp
  have r2: "?run2 = (fst ?run2, snd ?run2)" by simp
  have n: "fst ?run1 = None" by code_simp
  have c: "error_message (log (sess (snd ?run1))) = None" by code_simp
  have w1: "\<forall>t. write_fault env_b_down t = Written" by (simp add: env_b_down_def env_ok_def)
  have w2: "\<forall>t. write_fault env_ok t \<noteq> DumpFailed" by (simp add: env_ok_def)
  have f: "progress_file (snd ?run1)
       = Json \<lparr>last_processed_idx = 2, successful_ids = {''a'', ''c''}, failed_ids = {''b''}\<rparr>"
    by code_simp
  show ?thesis
    using idempotent_resume[OF b r1 n c w1 refl w2 r2] f by simp
qed

section \<open>Batch atomicity\<close>

lemma commit_table:
  "table (commit s) = working s @ map (\<lambda>(i, d). \<lparr>pk = i, cols = d\<rparr>) (enumerate (next_pk s) (pending s))"
  by (simp add: commit_def Let_def)

lemma commit_clean:
  "working s = table s \<Longrightarrow> pending s = [] \<Longrightarrow> table (commit s) = table s"
  by (simp add: commit_table)

lemma commit_session_sess:
  assumes "commit_session en w = (r, w')"
  shows "sess w' = (if commit_fault en (length (trace w)) = None then commit (sess w) else sess w)"
  using assms by (auto simp: commit_session_def emit_def split: option.splits)

text \<open>An identifier marked failed stays failed, and out of the successes, for the rest of the loop.\<close>

lemma batch_loop_failed_stay:
  assumes "batch_loop en cfg ids ks st = (r, st')" "x \<in> st_failed st" "x \<notin> st_successful st"
  shows "x \<in> st_failed st' \<and> x \<notin> st_successful st'"
  using assms
proof (induction ks arbitrary: st)
  case Nil
  then show ?case by simp
next
  case (Cons k ks)
  have step: "\<And>r1 st1. process_batch en cfg ids k st = (r1, st1) \<Longrightarrow>
                x \<in> st_failed st1 \<and> x \<notin> st_successful st1"
  proof -
    fix r1 st1 assume pb: "process_batch en cfg ids k st = (r1, st1)"
    note e = process_batch_effect[OF pb]
    have "x \<notin> set (batch_to_process (st_successful st) (st_failed st)
                     (batch_ids ids (batch_size cfg) k))"
      using Cons.prems(2) by (simp add: batch_to_process_set)
    then show "x \<in> st_failed st1 \<and> x \<notin> st_successful st1"
      using e(2,3) Cons.prems(2,3) by blast
  qed
  from Cons.prems(1) show ?case
  proof (cases rule: batch_loop_Cons_cases)
    case (stopped e)
    then show ?thesis using step by blast
  next
    case (continued st1)
    then show ?thesis using step Cons.IH by blast
  qed
qed

text \<open>
  Claim C1. Take an iteration of the batch loop whose items were all scraped, with some
  data, and whose batch save raises an exception. Then the stored table after the save, and
  after the whole iteration, is the table from before the batch, and the session holds
  nothing uncommitted; every identifier of the to-process list is in \<open>failed_ids\<close>, the set
  \<open>successful_ids\<close> is as it was and holds none of them; the checkpoint of the batch records
  exactly that; and whatever the rest of the loop does, they stay failed and never become
  successful.
\<close>

theorem batch_atomicity:
  assumes todo: "todo = batch_to_process (st_successful st) (st_failed st)
                          (batch_ids ids (batch_size cfg) k)" "todo \<noteq> []"
    and scraped: "scrape_items en cfg todo ([], [], []) (st_world st) = (None, (bd, ls, lf), w1)"
    and data: "bd \<noteq> []"
    and fails: "save_batch_to_db en bd w1 = (Some m, w2)"
    and pb: "process_batch en cfg ids k st = (r, st')"
  shows "table (sess w2) = table (sess (st_world st))
       \<and> working (sess w2) = table (sess w2) \<and> pending (sess w2) = []
       \<and> table (sess (st_world st')) = table (sess (st_world st))
       \<and> set todo \<subseteq> st_failed st'
       \<and> st_successful st' = st_successful st
       \<and> set todo \<inter> st_successful st' = {}
       \<and> saves (new_events (st_world st) (st_world st'))
           = [\<lparr>last_processed_idx = batch_end (int (length ids)) (batch_size cfg) k - 1,
               successful_ids = st_successful st, failed_ids = st_failed st \<union> set todo\<rparr>]
       \<and> (\<forall>en' ks r' st''. batch_loop en' cfg ids ks st' = (r', st'') \<longrightarrow>
             set todo \<subseteq> st_failed st'' \<and> set todo \<inter> st_successful st'' = {})"
proof -
  let ?S = "st_successful st" and ?F = "st_failed st"
  let ?pos = "batch_end (int (length ids)) (batch_size cfg) k - 1"
  from scrape_items_effect[OF scraped] obtain evs where
    se: "sess w1 = sess (st_world st)" "trace w1 = trace (st_world st) @ evs" "saves evs = []"
    and l: "set ls \<union> set lf = set todo"
    by auto
  note sd = save_batch_to_db_effect[OF fails]
  have t2: "table (sess w2) = table (sess (st_world st))" "working (sess w2) = table (sess w2)"
    "pending (sess w2) = []" "trace w2 = trace w1 @ [SaveBatchToDb bd]"
    using sd se(1) by simp_all
  let ?p = "\<lparr>last_processed_idx = ?pos, successful_ids = ?S, failed_ids = ?F \<union> set ls \<union> set lf\<rparr>"
  let ?w3 = "save_progress en ?p w2"
  let ?w4 = "set_log (\<lambda>l. l\<lparr>successful_scrapes := Some (card ?S),
                             failed_scrapes := Some (card (?F \<union> set ls \<union> set lf))\<rparr>) ?w3"
  obtain rc w5 where cm: "commit_session en ?w4 = (rc, w5)" by (cases "commit_session en ?w4")
  have fb: "finish_batch en ?pos (bd, ls, lf) st w1 =
          (map_option Exception rc,
           \<lparr>st_progress = ?p, st_successful = ?S, st_failed = ?F \<union> set ls \<union> set lf, st_world = w5\<rparr>)"
    using data fails cm by (simp add: finish_batch_def Let_def)
  have "process_batch en cfg ids k st = finish_batch en ?pos (bd, ls, lf) st w1"
    using todo scraped by (simp add: process_batch_def Let_def)
  then have st': "st' = \<lparr>st_progress = ?p, st_successful = ?S, st_failed = ?F \<union> set ls \<union> set lf,
                         st_world = w5\<rparr>"
    using pb fb by simp
  have w4: "table (sess ?w4) = table (sess w2)" "working (sess ?w4) = working (sess w2)"
    "pending (sess ?w4) = pending (sess w2)"
    by (simp_all add: set_log_def save_progress_effect)
  have "table (sess w5) = table (sess w2)"
  proof (cases "commit_fault en (length (trace ?w4))")
    case None
    then have "sess w5 = commit (sess ?w4)" using commit_session_sess[OF cm] by simp
    then show ?thesis using commit_clean[of "sess ?w4"] w4 t2(2,3) by simp
  next
    case (Some a)
    then have "sess w5 = sess ?w4" using commit_session_sess[OF cm] by simp
    then show ?thesis using w4 by simp
  qed
  then have tab: "table (sess (st_world st')) = table (sess (st_world st))"
    using st' t2(1) by simp
  have tr5: "trace w5 = trace (st_world st) @ (evs @ [SaveBatchToDb bd, SaveProgress ?p, Commit])"
    using commit_session_effect[OF cm] t2(4) se(2) by (simp add: set_log_effect save_progress_effect)
  have sv: "saves (new_events (st_world st) (st_world st')) = [?p]"
    using new_events_append[of w5 "st_world st", OF tr5] st' se(3) by simp
  have fl: "set todo \<subseteq> st_failed st'" using st' l by auto
  have su: "st_successful st' = ?S" using st' by simp
  have dj: "set todo \<inter> st_successful st' = {}"
    using su todo(1) by (auto simp: batch_to_process_set)
  have later: "\<forall>en' ks r' st''. batch_loop en' cfg ids ks st' = (r', st'') \<longrightarrow>
             set todo \<subseteq> st_failed st'' \<and> set todo \<inter> st_successful st'' = {}"
  proof (intro allI impI)
    fix en' ks r' st'' assume bl: "batch_loop en' cfg ids ks st' = (r', st'')"
    have "\<And>x. x \<in> set todo \<Longrightarrow> x \<in> st_failed st'' \<and> x \<notin> st_successful st''"
      using batch_loop_failed_stay[OF bl] fl dj by blast
    then show "set todo \<subseteq> st_failed st'' \<and> set todo \<inter> st_successful st'' = {}" by blast
  qed
  have p_eq: "?p = \<lparr>last_processed_idx = ?pos, successful_ids = ?S, failed_ids = ?F \<union> set todo\<rparr>"
    using l by (simp add: Un_assoc)
  show ?thesis using t2(1,2,3) tab fl su dj sv later unfolding p_eq by blast
qed

text \<open>The first batch of a fresh run against a database that fails at commit.\<close>

theorem batch_atomicity_witness:
  "table (sess (st_world (snd (process_batch env_db_down cfg2 [''a'', ''b'', ''c''] 0
            (initial_state zero_progress w_fresh))))) = table (sess w_fresh)
   \<and> {''a'', ''b''} \<subseteq> st_failed (snd (process_batch env_db_down cfg2 [''a'', ''b'', ''c''] 0
            (initial_state zero_progress w_fresh)))
   \<and> st_successful (snd (process_batch env_db_down cfg2 [''a'', ''b'', ''c''] 0
            (initial_state zero_progress w_fresh))) = {}
   \<and> db_saves (new_events w_fresh (st_world (snd (process_batch env_db_down cfg2
            [''a'', ''b'', ''c''] 0 (initial_state zero_progress w_fresh)))))
       = [[[(''bacteria_id'', Str ''a'')], [(''bacteria_id'', Str ''b'')]]]"
proof -
  let ?st = "initial_state zero_progress w_fresh"
  let ?ids = "[''a'', ''b'', ''c'']"
  let ?todo = "batch_to_process (st_successful ?st) (st_failed ?st)
                 (batch_ids ?ids (batch_size cfg2) 0)"
  let ?X = "scrape_items env_db_down cfg2 ?todo ([], [], []) (st_world ?st)"
  let ?bd = "fst (fst (snd ?X))"
  let ?ls = "fst (snd (fst (snd ?X)))"
  let ?lf = "snd (snd (fst (snd ?X)))"
  let ?w1 = "snd (snd ?X)"
  let ?Y = "save_batch_to_db env_db_down ?bd ?w1"
  let ?P = "process_batch env_db_down cfg2 ?ids 0 ?st"
  have todo: "?todo = [''a'', ''b'']" by code_simp
  have ne: "?todo \<noteq> []" using todo by simp
  have x0: "fst ?X = None" by code_simp
  have x: "?X = (None, (?bd, ?ls, ?lf), ?w1)" using x0 by (simp add: prod_eq_iff)
  have bd: "?bd \<noteq> []" by code_simp
  have y0: "fst ?Y = Some ''database error''" by code_simp
  have y: "?Y = (Some ''database error'', snd ?Y)" using y0 by (simp add: prod_eq_iff)
  have p: "?P = (fst ?P, snd ?P)" by simp
  have s: "st_world ?st = w_fresh" "st_successful ?st = {}"
    by (simp_all add: initial_state_def zero_progress_def)
  have d: "db_saves (new_events w_fresh (st_world (snd ?P)))
       = [[[(''bacteria_id'', Str ''a'')], [(''bacteria_id'', Str ''b'')]]]"
    by code_simp
  show ?thesis
    using batch_atomicity[OF refl ne x bd y p] todo s d by simp
qed

section \<open>The duplicate policies of save_bacteria\<close>

text \<open>
  Claim C10. With a session, an identifier in the data and a database that answers:
  when a stored row has the identifier, \<^verbatim>\<open>skip\<close> returns \<^verbatim>\<open>True\<close> and leaves the session,
  hence the stored row, as it was; \<^verbatim>\<open>force\<close> removes that row and inserts the data as a
  new row under the next primary key; and when no stored row has the identifier, the data
  is inserted as a new row whatever the policy is. (For the two insertions every key of
  the data must be an attribute of the model class, and the session must hold nothing
  uncommitted.)
\<close>

theorem save_bacteria_policies:
  assumes "map_of data ''bacteria_id'' = Some v" and "\<forall>j. \<not> flt j"
  shows "(find_existing v (table s) = Some existing \<longrightarrow>
            save_bacteria has flt (Some s) data ''skip'' = (True, Some s))
       \<and> (find_existing v (table s) = Some existing \<and> constructible has data
            \<and> working s = table s \<and> pending s = [] \<longrightarrow>
            (\<exists>s'. save_bacteria has flt (Some s) data ''force'' = (True, Some s')
               \<and> table s' = filter (\<lambda>r. pk r \<noteq> pk existing) (table s)
                              @ [\<lparr>pk = next_pk s, cols = data\<rparr>]))
       \<and> (find_existing v (table s) = None \<and> constructible has data
            \<and> working s = table s \<and> pending s = [] \<longrightarrow>
            (\<exists>s'. save_bacteria has flt (Some s) data action = (True, Some s')
               \<and> table s' = table s @ [\<lparr>pk = next_pk s, cols = data\<rparr>]))"
proof (intro conjI impI)
  assume "find_existing v (table s) = Some existing"
  then show "save_bacteria has flt (Some s) data ''skip'' = (True, Some s)"
    using assms by (simp add: save_bacteria_def)
next
  assume a: "find_existing v (table s) = Some existing \<and> constructible has data
            \<and> working s = table s \<and> pending s = []"
  let ?s1 = "commit (delete_row existing s)"
  let ?s' = "commit (add_row data ?s1)"
  have f: "\<not> flt 0" "\<not> flt 1" "\<not> flt 2" using assms(2) by simp_all
  have "save_bacteria has flt (Some s) data ''force'' = (True, Some ?s')"
    using assms(1) a f by (simp add: save_bacteria_def insert_new_def)
  moreover have "table ?s' = filter (\<lambda>r. pk r \<noteq> pk existing) (table s)
                              @ [\<lparr>pk = next_pk s, cols = data\<rparr>]"
    using a by (simp add: commit_def add_row_def delete_row_def Let_def)
  ultimately show "\<exists>s'. save_bacteria has flt (Some s) data ''force'' = (True, Some s')
               \<and> table s' = filter (\<lambda>r. pk r \<noteq> pk existing) (table s)
                              @ [\<lparr>pk = next_pk s, cols = data\<rparr>]"
    by blast
next
  assume a: "find_existing v (table s) = None \<and> constructible has data
            \<and> working s = table s \<and> pending s = []"
  let ?s' = "commit (add_row data s)"
  have f: "\<not> flt 0" "\<not> flt 1" using assms(2) by simp_all
  have "save_bacteria has flt (Some s) data action = (True, Some ?s')"
    using assms(1) a f by (simp add: save_bacteria_def insert_new_def)
  moreover have "table ?s' = table s @ [\<lparr>pk = next_pk s, cols = data\<rparr>]"
    using a by (simp add: commit_def add_row_def Let_def)
  ultimately show "\<exists>s'. save_bacteria has flt (Some s) data action = (True, Some s')
               \<and> table s' = table s @ [\<lparr>pk = next_pk s, cols = data\<rparr>]"
    by blast
qed

text \<open>
  \<^verbatim>\<open>X001\<close> is stored with the name \<^verbatim>\<open>A\<close> and scraped with the name \<^verbatim>\<open>B\<close>: \<^verbatim>\<open>skip\<close> keeps
  the session, \<^verbatim>\<open>force\<close> leaves one new row with the new name, and the unknown \<^verbatim>\<open>X002\<close> is
  added under \<^verbatim>\<open>skip\<close>.
\<close>

theorem save_bacteria_policies_witness:
  "save_bacteria (has_attr env_ok) (\<lambda>j. False) (Some session_x001) data_x001 ''skip''
     = (True, Some session_x001)
   \<and> map_option table (snd (save_bacteria (has_attr env_ok) (\<lambda>j. False) (Some session_x001)
                               data_x001 ''force''))
     = Some [\<lparr>pk = 1, cols = [(''bacteria_id'', Str ''X001''), (''name'', Str ''B'')]\<rparr>]
   \<and> map_option table (snd (save_bacteria (has_attr env_ok) (\<lambda>j. False) (Some session_x001)
                               data_x002 ''skip''))
     = Some [row_x001, \<lparr>pk = 1, cols = [(''bacteria_id'', Str ''X002''), (''name'', Str ''C'')]\<rparr>]"
proof -
  let ?has = "has_attr env_ok"
  let ?flt = "\<lambda>j::nat. False"
  have k1: "map_of data_x001 ''bacteria_id'' = Some (Str ''X001'')" by (simp add: data_x001_def)
  have k2: "map_of data_x002 ''bacteria_id'' = Some (Str ''X002'')" by (simp add: data_x002_def)
  have nf: "\<forall>j. \<not> ?flt j" by simp
  have e1: "find_existing (Str ''X001'') (table session_x001) = Some row_x001"
    by (simp add: find_existing_def session_x001_def row_x001_def)
  have e2: "find_existing (Str ''X002'') (table session_x001) = None"
    by (simp add: find_existing_def session_x001_def row_x001_def)
  have c1: "constructible ?has data_x001" "constructible ?has data_x002"
    by (simp_all add: constructible_def data_x001_def data_x002_def env_ok_def)
  have cl: "working session_x001 = table session_x001" "pending session_x001 = []"
    "next_pk session_x001 = 1"
    by (simp_all add: session_x001_def)
  note t1 = save_bacteria_policies[OF k1 nf, of session_x001 row_x001 ?has "''skip''"]
  note t2 = save_bacteria_policies[OF k2 nf, of session_x001 row_x001 ?has "''skip''"]
  have a: "save_bacteria ?has ?flt (Some session_x001) data_x001 ''skip'' = (True, Some session_x001)"
    using t1 e1 by blast
  have "\<exists>s'. save_bacteria ?has ?flt (Some session_x001) data_x001 ''force'' = (True, Some s')
               \<and> table s' = filter (\<lambda>r. pk r \<noteq> pk row_x001) (table session_x001)
                              @ [\<lparr>pk = next_pk session_x001, cols = data_x001\<rparr>]"
    using t1 e1 c1(1) cl by blast
  then have b: "map_option table (snd (save_bacteria ?has ?flt (Some session_x001) data_x001 ''force''))
     = Some [\<lparr>pk = 1, cols = [(''bacteria_id'', Str ''X001''), (''name'', Str ''B'')]\<rparr>]"
    by (auto simp: session_x001_def row_x001_def data_x001_def)
  have "\<exists>s'. save_bacteria ?has ?flt (Some session_x001) data_x002 ''skip'' = (True, Some s')
               \<and> table s' = table session_x001 @ [\<lparr>pk = next_pk session_x001, cols = data_x002\<rparr>]"
    using t2 e2 c1(2) cl by blast
  then have c: "map_option table (snd (save_bacteria ?has ?flt (Some session_x001) data_x002 ''skip''))
     = Some [row_x001, \<lparr>pk = 1, cols = [(''bacteria_id'', Str ''X002''), (''name'', Str ''C'')]\<rparr>]"
    by (auto simp: session_x001_def data_x002_def)
  show ?thesis using a b c by blast
qed

section \<open>Interrupts and exceptions of the run\<close>

text \<open>
  Claim C5, as the code has it. When a \<^verbatim>\<open>KeyboardInterrupt\<close> or an exception leaves the body
  of the \<^verbatim>\<open>try\<close>, \<^verbatim>\<open>process_batches\<close> sets \<open>end_time\<close> and \<open>error_message\<close> of the scrape log
  and commits, then hands \<^verbatim>\<open>_save_progress\<close> a last snapshot whose cursor is the larger of
  the loaded cursor and the cursor of the \<^verbatim>\<open>progress\<close> variable at the abort, with the two
  sets as they are. The failure itself is not raised again: the method returns normally,
  unless the handler's own commit raises, and then it is that exception that leaves.
\<close>

theorem abort_cleanup:
  assumes nz: "batch_size cfg \<noteq> 0" and lp: "load_progress w = (j0, w0)"
    and rd: "read_progress j0 = Inr p0"
    and ab: "try_body en cfg (limit_ids mb discovered) (last_processed_idx p0)
               (initial_state p0 w0) = (Some e, st)"
  shows "fst (process_batches en cfg discovered mb w)
           = map_option Exception (commit_fault en (length (trace (st_world st))))
       \<and> end_time (log (sess (snd (process_batches en cfg discovered mb w))))
           = Some (length (trace (st_world st)))
       \<and> error_message (log (sess (snd (process_batches en cfg discovered mb w))))
           = Some (abort_message e)
       \<and> trace (snd (process_batches en cfg discovered mb w))
           = trace (st_world st) @
             [Commit,
              SaveProgress \<lparr>last_processed_idx =
                               max (last_processed_idx p0) (last_processed_idx (st_progress st)),
                             successful_ids = st_successful st, failed_ids = st_failed st\<rparr>]"
proof -
  obtain r2 w2 where h: "except_handler en e (st_world st) = (r2, w2)"
    by (cases "except_handler en e (st_world st)")
  have pb: "process_batches en cfg discovered mb w
        = (r2, save_progress en (final_progress (last_processed_idx p0) st) w2)"
    using process_batches_entered[OF lp nz rd, of en discovered mb] ab h by (simp add: Let_def)
  note he = except_handler_effect[OF h]
  show ?thesis
    unfolding pb using he(1,3,4,6)
    by (simp add: save_progress_effect final_progress_def)
qed

text \<open>
  An interrupted run returns as a completed run does: no exception leaves the method,
  and the method has no other result.
\<close>

theorem abort_cleanup_counterexample:
  "error_message (log (sess (snd (process_batches env_interrupt cfg2 [''a''] None w_fresh))))
     = Some ''Interrupted by user''
   \<and> fst (process_batches env_interrupt cfg2 [''a''] None w_fresh) = None
   \<and> fst (process_batches env_ok cfg2 [''a''] None w_fresh) = None"
  by code_simp

theorem abort_cleanup_witness:
  "fst (process_batches env_interrupt cfg2 [''a'', ''b'', ''c''] None w_fresh) = None
   \<and> error_message (log (sess (snd (process_batches env_interrupt cfg2 [''a'', ''b'', ''c''] None
         w_fresh)))) = Some ''Interrupted by user''
   \<and> saves (trace (snd (process_batches env_interrupt cfg2 [''a'', ''b'', ''c''] None w_fresh)))
       = [\<lparr>last_processed_idx = - 1, successful_ids = {}, failed_ids = {}\<rparr>]"
proof -
  let ?T = "try_body env_interrupt cfg2 (limit_ids None [''a'', ''b'', ''c''])
              (last_processed_idx zero_progress) (initial_state zero_progress w_fresh)"
  have nz: "batch_size cfg2 \<noteq> 0" by (simp add: cfg2_def)
  have lp: "load_progress w_fresh = (zero_record, w_fresh)"
    by (simp add: load_progress_def w_fresh_def)
  have rd: "read_progress zero_record = Inr zero_progress" by simp
  have t0: "fst ?T = Some KeyboardInterrupt" by code_simp
  have t: "?T = (Some KeyboardInterrupt, snd ?T)" using t0 by (simp add: prod_eq_iff)
  have c: "commit_fault env_interrupt (length (trace (st_world (snd ?T)))) = None"
    by (simp add: env_interrupt_def env_ok_def)
  have s: "saves (trace (st_world (snd ?T))) = []" by code_simp
  have p: "last_processed_idx (st_progress (snd ?T)) = - 1" "st_successful (snd ?T) = {}"
    "st_failed (snd ?T) = {}" by code_simp+
  show ?thesis
    using abort_cleanup[OF nz lp rd t] c s p by (simp add: zero_progress_def)
qed

section \<open>Fetch failures\<close>

lemma requests_attempts:
  "requests (concat (replicate k [Sleep d, HttpGet url, Sleep d])) = replicate k url"
  by (induction k) simp_all

lemma db_saves_attempts:
  "db_saves (concat (replicate k [Sleep d, HttpGet url, Sleep d])) = []"
  by (induction k) simp_all

text \<open>
  The \<open>i\<close>-th attempt of a call that starts with the trace \<open>tr\<close> is answered at time
  \<open>length tr + 3 * i + 1\<close>: each failed attempt before it took a wait, a request and a wait,
  and its own wait comes first.
\<close>

lemma get_page_loop_exhausted:
  assumes "0 \<le> d" "\<forall>i < n. fetch_failed (http_get en (length tr + 3 * i + 1) url)"
  shows "get_page_loop en d url n tr
         = (Inr None, tr @ concat (replicate n [Sleep d, HttpGet url, Sleep d]))"
  using assms(2)
proof (induction n arbitrary: tr)
  case 0
  show ?case by simp
next
  case (Suc n)
  let ?tr' = "tr @ [Sleep d, HttpGet url, Sleep d]"
  have f: "fetch_failed (http_get en (Suc (length tr)) url)" using Suc.prems by force
  have "\<forall>i < n. fetch_failed (http_get en (length ?tr' + 3 * i + 1) url)"
  proof (intro allI impI)
    fix i assume "i < n"
    then have "fetch_failed (http_get en (length tr + 3 * Suc i + 1) url)" using Suc.prems by blast
    moreover have "length ?tr' + 3 * i + 1 = length tr + 3 * Suc i + 1" by simp
    ultimately show "fetch_failed (http_get en (length ?tr' + 3 * i + 1) url)" by (simp only:)
  qed
  note ih = Suc.IH[OF this]
  show ?case
  proof (cases "http_get en (Suc (length tr)) url")
    case (Response status body)
    then show ?thesis using f assms(1) ih by (simp add: Let_def)
  next
    case (RequestError m)
    then show ?thesis using assms(1) ih by (simp add: Let_def)
  next
    case Interrupted
    then show ?thesis using f by simp
  qed
qed

lemma get_page_loop_none:
  assumes "fst (get_page_loop en d url n tr) = Inr None"
  shows "snd (get_page_loop en d url n tr) = tr @ concat (replicate n [Sleep d, HttpGet url, Sleep d])
         \<and> (\<forall>i < n. fetch_failed (http_get en (length tr + 3 * i + 1) url))"
  using assms
proof (induction n arbitrary: tr)
  case 0
  show ?case by simp
next
  case (Suc n)
  let ?tr' = "tr @ [Sleep d, HttpGet url, Sleep d]"
  have d: "\<not> d < 0" using Suc.prems by (auto split: if_splits)
  have step: "fetch_failed (http_get en (Suc (length tr)) url)
              \<and> get_page_loop en d url (Suc n) tr = get_page_loop en d url n ?tr'"
  proof (cases "http_get en (Suc (length tr)) url")
    case (Response status body)
    then show ?thesis using Suc.prems d by (auto simp: Let_def split: if_splits)
  next
    case (RequestError m)
    then show ?thesis using d by (simp add: Let_def)
  next
    case Interrupted
    then show ?thesis using Suc.prems d by (simp add: Let_def)
  qed
  then have "fst (get_page_loop en d url n ?tr') = Inr None" using Suc.prems by simp
  note ih = Suc.IH[OF this]
  have a: "snd (get_page_loop en d url (Suc n) tr)
             = tr @ concat (replicate (Suc n) [Sleep d, HttpGet url, Sleep d])"
    using step ih by simp
  have b: "\<forall>i < Suc n. fetch_failed (http_get en (length tr + 3 * i + 1) url)"
  proof (intro allI impI)
    fix i assume i: "i < Suc n"
    show "fetch_failed (http_get en (length tr + 3 * i + 1) url)"
    proof (cases i)
      case 0
      then show ?thesis using step by simp
    next
      case (Suc i')
      then have "i' < n" using i by simp
      then have "fetch_failed (http_get en (length ?tr' + 3 * i' + 1) url)" using ih by blast
      moreover have "length ?tr' + 3 * i' + 1 = length tr + 3 * i + 1" using Suc by simp
      ultimately show ?thesis by (simp only:)
    qed
  qed
  show ?case using a b by blast
qed

text \<open>A page that \<^verbatim>\<open>get_page\<close> could not fetch: \<^verbatim>\<open>scrape_bacteria\<close> returns \<^verbatim>\<open>None\<close>.\<close>

lemma scrape_bacteria_unfetched:
  assumes "fst (get_page en (delay cfg) (detail_url b) 3 (trace w @ [ScrapeBacteria b])) = Inr None"
  shows "scrape_bacteria en cfg b w =
           (Inr None, w\<lparr>trace := trace w @ ScrapeBacteria b #
              concat (replicate 3 [Sleep (delay cfg), HttpGet (detail_url b), Sleep (delay cfg)])\<rparr>)"
proof -
  let ?g = "get_page_loop en (delay cfg) (detail_url b) (nat 3) (trace w @ [ScrapeBacteria b])"
  have f: "fst ?g = Inr None" using assms by (simp add: get_page_def)
  from get_page_loop_none[OF f] have
    s: "snd ?g = (trace w @ [ScrapeBacteria b]) @
          concat (replicate (nat 3) [Sleep (delay cfg), HttpGet (detail_url b), Sleep (delay cfg)])"
    by blast
  have "?g = (Inr None, snd ?g)" using f by (simp add: prod_eq_iff)
  then show ?thesis unfolding s
    by (simp add: scrape_bacteria_def get_page_def emit_def Let_def)
qed

lemma scrape_items_append:
  assumes "scrape_items en cfg pre (bd0, ls0, lf0) w = (None, acc1, w1)"
  shows "scrape_items en cfg (pre @ rest) (bd0, ls0, lf0) w = scrape_items en cfg rest acc1 w1"
  using assms
proof (induction pre arbitrary: bd0 ls0 lf0 w)
  case Nil
  then show ?case by simp
next
  case (Cons x xs)
  obtain r w' where sb: "scrape_bacteria en cfg x w = (r, w')"
    by (cases "scrape_bacteria en cfg x w")
  show ?case
  proof (cases r)
    case (Inl e)
    show ?thesis
    proof (cases e)
      case KeyboardInterrupt
      then show ?thesis using Cons.prems sb Inl by simp
    next
      case (Exception m)
      then show ?thesis using Cons.prems Cons.IH sb Inl by simp
    qed
  next
    case (Inr opt)
    show ?thesis
    proof (cases opt)
      case None
      then show ?thesis using Cons.prems Cons.IH sb Inr by simp
    next
      case (Some d)
      then show ?thesis using Cons.prems Cons.IH sb Inr by (cases "d = []") simp_all
    qed
  qed
qed

text \<open>
  The inner loop at an item whose page could not be fetched, after the items \<open>pre\<close>: the
  loop goes on with the items \<open>post\<close>, the item in \<^verbatim>\<open>local_failed\<close>, \<^verbatim>\<open>batch_data\<close> and
  \<^verbatim>\<open>local_successful\<close> as they were.
\<close>

lemma scrape_items_unfetched:
  assumes pre: "scrape_items en cfg pre acc0 w = (None, (bd, ls, lf), w1)"
    and g: "fst (get_page en (delay cfg) (detail_url b) 3 (trace w1 @ [ScrapeBacteria b])) = Inr None"
  shows "\<exists>w2. scrape_bacteria en cfg b w1 = (Inr None, w2)
          \<and> scrape_items en cfg (pre @ b # post) acc0 w
              = scrape_items en cfg post (bd, ls, lf @ [b]) w2
          \<and> requests (new_events w1 w2) = replicate 3 (detail_url b)
          \<and> db_saves (new_events w1 w2) = [] \<and> sess w2 = sess w1"
proof -
  let ?evs = "ScrapeBacteria b #
              concat (replicate 3 [Sleep (delay cfg), HttpGet (detail_url b), Sleep (delay cfg)])"
  let ?w2 = "w1\<lparr>trace := trace w1 @ ?evs\<rparr>"
  have sb: "scrape_bacteria en cfg b w1 = (Inr None, ?w2)"
    by (rule scrape_bacteria_unfetched[OF g])
  obtain bd0 ls0 lf0 where a: "acc0 = (bd0, ls0, lf0)" by (cases acc0)
  have "scrape_items en cfg (pre @ b # post) acc0 w
          = scrape_items en cfg (b # post) (bd, ls, lf) w1"
    using pre unfolding a by (rule scrape_items_append)
  also have "\<dots> = scrape_items en cfg post (bd, ls, lf @ [b]) ?w2" using sb by simp
  finally have eq: "scrape_items en cfg (pre @ b # post) acc0 w
          = scrape_items en cfg post (bd, ls, lf @ [b]) ?w2" .
  have ne: "new_events w1 ?w2 = ?evs" by (simp add: new_events_def)
  have rq: "requests (new_events w1 ?w2) = replicate 3 (detail_url b)"
    unfolding ne by (simp add: requests_attempts del: replicate.simps)
  have ds: "db_saves (new_events w1 ?w2) = []"
    unfolding ne by (simp add: db_saves_attempts del: replicate.simps)
  show ?thesis using sb eq rq ds by (intro exI[of _ ?w2]) simp
qed

lemma scrape_items_unfetched_result:
  assumes once: "b \<notin> set pre" "b \<notin> set post"
    and pre: "scrape_items en cfg pre ([], [], []) w = (None, acc1, w1)"
    and g: "fst (get_page en (delay cfg) (detail_url b) 3 (trace w1 @ [ScrapeBacteria b])) = Inr None"
    and all: "scrape_items en cfg (pre @ b # post) ([], [], []) w = (r0, (bd', ls', lf'), w')"
  shows "b \<notin> set ls' \<and> length bd' = length ls' \<and> (r0 = None \<longrightarrow> b \<in> set lf')"
proof -
  obtain bd ls lf where a: "acc1 = (bd, ls, lf)" by (cases acc1)
  note pre' = pre[unfolded a]
  from scrape_items_effect[OF pre'] have
    p: "set ls \<subseteq> set pre" "length bd = length ls" by auto
  from scrape_items_unfetched[OF pre' g, of post] obtain w2 where
    eq: "scrape_items en cfg (pre @ b # post) ([], [], []) w
           = scrape_items en cfg post (bd, ls, lf @ [b]) w2" by blast
  have rest: "scrape_items en cfg post (bd, ls, lf @ [b]) w2 = (r0, (bd', ls', lf'), w')"
    using all eq by simp
  from scrape_items_effect[OF rest] have
    q: "set ls' \<subseteq> set ls \<union> set post" "set (lf @ [b]) \<subseteq> set lf'"
       "length bd = length ls \<longrightarrow> length bd' = length ls'" by blast+
  show ?thesis using once p q by auto
qed

lemma process_batch_unfetched:
  assumes todo: "batch_to_process (st_successful st) (st_failed st)
                   (batch_ids ids (batch_size cfg) k) = pre @ b # post"
    and once: "b \<notin> set pre" "b \<notin> set post"
    and pre: "scrape_items en cfg pre ([], [], []) (st_world st) = (None, acc1, w1)"
    and g: "fst (get_page en (delay cfg) (detail_url b) 3 (trace w1 @ [ScrapeBacteria b])) = Inr None"
    and pb: "process_batch en cfg ids k st = (r, st')"
  shows "b \<notin> st_successful st' \<and> (r \<noteq> Some KeyboardInterrupt \<longrightarrow> b \<in> st_failed st')"
proof -
  have "b \<in> set (batch_to_process (st_successful st) (st_failed st)
                   (batch_ids ids (batch_size cfg) k))" unfolding todo by simp
  then have ns: "b \<notin> st_successful st" by (simp add: batch_to_process_set)
  show ?thesis
    using pb
  proof (cases rule: process_batch_cases)
    case skipped
    then show ?thesis using todo by simp
  next
    case (interrupted acc w')
    then show ?thesis using ns by simp
  next
    case (finished bd' ls' lf' w')
    have all: "scrape_items en cfg (pre @ b # post) ([], [], []) (st_world st)
                 = (None, (bd', ls', lf'), w')"
      using finished(2) todo by simp
    from scrape_items_unfetched_result[OF once pre g all] have
      l: "b \<notin> set ls'" "b \<in> set lf'" by simp_all
    note fb = finish_batch_effect[OF finished(3)]
    have "b \<notin> st_successful st'" using fb(4) ns l(1) by blast
    moreover have "b \<in> st_failed st'" using fb(6) l(2) by blast
    ultimately show ?thesis by simp
  qed
qed

text \<open>
  Claim C8. \<^verbatim>\<open>get_page\<close> adds to the trace some failed attempts and at most one last
  attempt, each of them a wait of \<open>delay\<close> followed by one request (a failed one followed by
  another wait), at most \<open>retries\<close> attempts in all. When the responses to the attempts of
  the call are failures (and the delay is not negative) it makes exactly \<open>retries\<close>
  attempts and returns \<^verbatim>\<open>None\<close>; and it returns \<^verbatim>\<open>None\<close> in no other way. When the fetch
  of an item returns \<^verbatim>\<open>None\<close>, the inner loop goes on with the remaining items, with the
  item in \<^verbatim>\<open>local_failed\<close> and nothing added to \<^verbatim>\<open>batch_data\<close> or \<^verbatim>\<open>local_successful\<close>, after
  three requests and no database call. When the item stands once in the to-process list
  of its batch, \<^verbatim>\<open>batch_data\<close> holds the records of \<^verbatim>\<open>local_successful\<close>, which does not
  hold the item; after the batch the item is not in \<open>successful_ids\<close>, and unless another
  item of the batch was interrupted it is in \<open>failed_ids\<close>, where it stays, out of
  \<open>successful_ids\<close>, for the rest of the loop.
\<close>

theorem fetch_failure_nonfatal:
  "(\<exists>k fin. snd (get_page en d url retries tr)
              = tr @ concat (replicate k [Sleep d, HttpGet url, Sleep d]) @ fin
          \<and> (fin = [] \<or> fin = [Sleep d, HttpGet url]) \<and> k + length fin div 2 \<le> nat retries)
   \<and> (0 \<le> d \<and> (\<forall>i < nat retries. fetch_failed (http_get en (length tr + 3 * i + 1) url)) \<longrightarrow>
        get_page en d url retries tr
          = (Inr None, tr @ concat (replicate (nat retries) [Sleep d, HttpGet url, Sleep d])))
   \<and> (fst (get_page en d url retries tr) = Inr None \<longrightarrow>
        snd (get_page en d url retries tr)
          = tr @ concat (replicate (nat retries) [Sleep d, HttpGet url, Sleep d])
        \<and> (\<forall>i < nat retries. fetch_failed (http_get en (length tr + 3 * i + 1) url)))
   \<and> (scrape_items en cfg pre acc w = (None, (bd, ls, lf), w')
        \<and> fst (get_page en (delay cfg) (detail_url b) 3 (trace w' @ [ScrapeBacteria b])) = Inr None
       \<longrightarrow>
        (\<exists>w2. scrape_bacteria en cfg b w' = (Inr None, w2)
            \<and> scrape_items en cfg (pre @ b # post) acc w
                = scrape_items en cfg post (bd, ls, lf @ [b]) w2
            \<and> requests (new_events w' w2) = replicate 3 (detail_url b)
            \<and> db_saves (new_events w' w2) = [] \<and> sess w2 = sess w'))
   \<and> (batch_to_process (st_successful st) (st_failed st) (batch_ids ids (batch_size cfg) n)
          = pre @ b # post
        \<and> b \<notin> set pre \<and> b \<notin> set post
        \<and> scrape_items en cfg pre ([], [], []) (st_world st) = (None, acc', w')
        \<and> fst (get_page en (delay cfg) (detail_url b) 3 (trace w' @ [ScrapeBacteria b])) = Inr None
        \<and> process_batch en cfg ids n st = (r, st')
       \<longrightarrow>
        (\<forall>rf bd' ls' lf' wf.
            scrape_items en cfg (pre @ b # post) ([], [], []) (st_world st)
              = (rf, (bd', ls', lf'), wf) \<longrightarrow>
            b \<notin> set ls' \<and> length bd' = length ls')
        \<and> b \<notin> st_successful st'
        \<and> (r \<noteq> Some KeyboardInterrupt \<longrightarrow>
             b \<in> st_failed st'
             \<and> (\<forall>en' ks r' st''. batch_loop en' cfg ids ks st' = (r', st'') \<longrightarrow>
                  b \<in> st_failed st'' \<and> b \<notin> st_successful st'')))"
proof (intro conjI impI)
  show "\<exists>k fin. snd (get_page en d url retries tr)
              = tr @ concat (replicate k [Sleep d, HttpGet url, Sleep d]) @ fin
          \<and> (fin = [] \<or> fin = [Sleep d, HttpGet url]) \<and> k + length fin div 2 \<le> nat retries"
    unfolding get_page_def by (rule get_page_loop_shape)
next
  assume "0 \<le> d \<and> (\<forall>i < nat retries. fetch_failed (http_get en (length tr + 3 * i + 1) url))"
  then show "get_page en d url retries tr
          = (Inr None, tr @ concat (replicate (nat retries) [Sleep d, HttpGet url, Sleep d]))"
    unfolding get_page_def by (intro get_page_loop_exhausted) simp_all
next
  assume a: "fst (get_page en d url retries tr) = Inr None"
  then have "fst (get_page_loop en d url (nat retries) tr) = Inr None" by (simp add: get_page_def)
  from get_page_loop_none[OF this]
  show "snd (get_page en d url retries tr)
          = tr @ concat (replicate (nat retries) [Sleep d, HttpGet url, Sleep d])"
    and "\<forall>i < nat retries. fetch_failed (http_get en (length tr + 3 * i + 1) url)"
    by (simp_all add: get_page_def)
next
  assume "scrape_items en cfg pre acc w = (None, (bd, ls, lf), w')
        \<and> fst (get_page en (delay cfg) (detail_url b) 3 (trace w' @ [ScrapeBacteria b])) = Inr None"
  then show "\<exists>w2. scrape_bacteria en cfg b w' = (Inr None, w2)
            \<and> scrape_items en cfg (pre @ b # post) acc w
                = scrape_items en cfg post (bd, ls, lf @ [b]) w2
            \<and> requests (new_events w' w2) = replicate 3 (detail_url b)
            \<and> db_saves (new_events w' w2) = [] \<and> sess w2 = sess w'"
    by (intro scrape_items_unfetched) simp_all
next
  assume a: "batch_to_process (st_successful st) (st_failed st) (batch_ids ids (batch_size cfg) n)
          = pre @ b # post
        \<and> b \<notin> set pre \<and> b \<notin> set post
        \<and> scrape_items en cfg pre ([], [], []) (st_world st) = (None, acc', w')
        \<and> fst (get_page en (delay cfg) (detail_url b) 3 (trace w' @ [ScrapeBacteria b])) = Inr None
        \<and> process_batch en cfg ids n st = (r, st')"
  then have todo: "batch_to_process (st_successful st) (st_failed st)
                     (batch_ids ids (batch_size cfg) n) = pre @ b # post"
    and once: "b \<notin> set pre" "b \<notin> set post"
    and pre: "scrape_items en cfg pre ([], [], []) (st_world st) = (None, acc', w')"
    and g: "fst (get_page en (delay cfg) (detail_url b) 3 (trace w' @ [ScrapeBacteria b])) = Inr None"
    and pb: "process_batch en cfg ids n st = (r, st')"
    by simp_all
  show "\<forall>rf bd' ls' lf' wf.
            scrape_items en cfg (pre @ b # post) ([], [], []) (st_world st)
              = (rf, (bd', ls', lf'), wf) \<longrightarrow>
            b \<notin> set ls' \<and> length bd' = length ls'"
    using scrape_items_unfetched_result[OF once pre g] by blast
  note p = process_batch_unfetched[OF todo once pre g pb]
  show "b \<notin> st_successful st'" using p by simp
  assume "r \<noteq> Some KeyboardInterrupt"
  then have f: "b \<in> st_failed st'" using p by simp
  show "b \<in> st_failed st'" by (rule f)
  show "\<forall>en' ks r' st''. batch_loop en' cfg ids ks st' = (r', st'') \<longrightarrow>
                  b \<in> st_failed st'' \<and> b \<notin> st_successful st''"
    using f p batch_loop_failed_stay by blast
qed

text \<open>
  The item \<^verbatim>\<open>b\<close> cannot be reached before time 20, and its three attempts fall at the
  times 5, 8 and 11: \<^verbatim>\<open>None\<close>, and after the first batch of the run \<^verbatim>\<open>b\<close> is failed only,
  while \<^verbatim>\<open>a\<close> and \<^verbatim>\<open>c\<close> are saved. The same request succeeds later.
\<close>

theorem fetch_failure_nonfatal_witness:
  "get_page env_b_late 0 (detail_url ''b'') 3 []
     = (Inr None, concat (replicate (nat 3) [Sleep 0, HttpGet (detail_url ''b''), Sleep 0]))
   \<and> fst (get_page env_b_late 0 (detail_url ''b'') 3 (replicate 20 (Sleep 0)))
       = Inr (Some (detail_url ''b''))
   \<and> batch_to_process {} {} (batch_ids [''a'', ''b'', ''c''] 2 0) = [''a''] @ ''b'' # []
   \<and> ''b'' \<notin> st_successful (snd (process_batch env_b_late cfg2 [''a'', ''b'', ''c''] 0
                                   (initial_state zero_progress w_fresh)))
   \<and> ''b'' \<in> st_failed (snd (process_batch env_b_late cfg2 [''a'', ''b'', ''c''] 0
                                   (initial_state zero_progress w_fresh)))
   \<and> db_saves (trace (snd (process_batches env_b_late cfg2 [''a'', ''b'', ''c''] None w_fresh)))
       = [[[(''bacteria_id'', Str ''a'')]], [[(''bacteria_id'', Str ''c'')]]]"
proof -
  let ?st = "initial_state zero_progress w_fresh"
  let ?ids = "[''a'', ''b'', ''c'']"
  let ?P = "process_batch env_b_late cfg2 ?ids 0 ?st"
  let ?R = "scrape_items env_b_late cfg2 [''a''] ([], [], []) (st_world ?st)"
  let ?w1 = "snd (snd ?R)"
  have d: "(0::real) \<le> 0" by simp
  have dz: "delay cfg2 = 0" by (simp add: cfg2_def)
  have f: "\<forall>i < nat 3. fetch_failed
              (http_get env_b_late (length ([]::event list) + 3 * i + 1) (detail_url ''b''))"
    by (simp add: env_b_late_def env_ok_def)
  note t = fetch_failure_nonfatal[where en = env_b_late and d = 0 and url = "detail_url ''b''"
             and retries = 3 and tr = "[]" and cfg = cfg2 and b = "''b''" and pre = "[''a'']"
             and post = "[]" and st = ?st and ids = ?ids and n = 0 and acc' = "fst (snd ?R)"
             and w' = ?w1 and r = "fst ?P" and st' = "snd ?P"]
  have g: "get_page env_b_late 0 (detail_url ''b'') 3 []
     = (Inr None, concat (replicate (nat 3) [Sleep 0, HttpGet (detail_url ''b''), Sleep 0]))"
    using t d f by simp
  have l: "fst (get_page env_b_late 0 (detail_url ''b'') 3 (replicate 20 (Sleep 0)))
       = Inr (Some (detail_url ''b''))"
    by code_simp
  have m0: "batch_to_process {} {} (batch_ids [''a'', ''b'', ''c''] 2 0) = [''a''] @ ''b'' # []"
    by code_simp
  have m: "batch_to_process (st_successful ?st) (st_failed ?st)
             (batch_ids ?ids (batch_size cfg2) 0) = [''a''] @ ''b'' # []"
    by code_simp
  have o: "''b'' \<notin> set [''a'']" "''b'' \<notin> set []" by simp_all
  have r0: "fst ?R = None" by code_simp
  have pre: "?R = (None, fst (snd ?R), ?w1)" using r0 by (simp add: prod_eq_iff)
  have gp: "fst (get_page env_b_late (delay cfg2) (detail_url ''b'') 3
                   (trace ?w1 @ [ScrapeBacteria ''b''])) = Inr None"
    by code_simp
  have p: "?P = (fst ?P, snd ?P)" by simp
  have r: "fst ?P \<noteq> Some KeyboardInterrupt" by code_simp
  have b: "''b'' \<notin> st_successful (snd ?P) \<and> ''b'' \<in> st_failed (snd ?P)"
    using t m o pre gp p r by blast
  have s: "db_saves (trace (snd (process_batches env_b_late cfg2 ?ids None w_fresh)))
       = [[[(''bacteria_id'', Str ''a'')]], [[(''bacteria_id'', Str ''c'')]]]"
    by code_simp
  show ?thesis using g l m0 b s by blast
qed

end
